theory Spec2Isabelle
  imports Main "HOL-Library.Word"
begin

unbundle bit_operations_syntax

section \<open>Bytes and JavaScript strings\<close>

text \<open>
  The program is \<^verbatim>\<open>CryptographProcessor\<close> (TypeScript on Node.js). A \<^verbatim>\<open>Buffer\<close> is a
  list of bytes. A JavaScript \<^verbatim>\<open>string\<close> is a list of 16-bit UTF-16 code units; nothing
  forces surrogates to come in pairs.
\<close>

type_synonym byte = "8 word"
type_synonym jsstring = "16 word list"

text \<open>ASCII literals, written as Isabelle strings.\<close>

definition js :: "string \<Rightarrow> jsstring" where
  "js s = map (\<lambda>c. of_nat (of_char c)) s"

text \<open>\<^verbatim>\<open>String.prototype.substring(start, end)\<close>: both ends are clamped to the length and
  swapped when out of order.\<close>

definition substring :: "nat \<Rightarrow> nat \<Rightarrow> jsstring \<Rightarrow> jsstring" where
  "substring start stop s =
     (let a = min start (length s); b = min stop (length s)
      in take (max a b - min a b) (drop (min a b) s))"

definition is_high_surrogate :: "16 word \<Rightarrow> bool" where
  "is_high_surrogate c = (0xD800 \<le> unat c \<and> unat c \<le> 0xDBFF)"

definition is_low_surrogate :: "16 word \<Rightarrow> bool" where
  "is_low_surrogate c = (0xDC00 \<le> unat c \<and> unat c \<le> 0xDFFF)"

text \<open>\<^verbatim>\<open>String.prototype.isWellFormed()\<close>: no unpaired surrogate.\<close>

fun isWellFormed :: "jsstring \<Rightarrow> bool" where
  "isWellFormed [] = True"
| "isWellFormed [c] = (\<not> is_high_surrogate c \<and> \<not> is_low_surrogate c)"
| "isWellFormed (c # d # cs) =
     (if is_high_surrogate c then is_low_surrogate d \<and> isWellFormed cs
      else \<not> is_low_surrogate c \<and> isWellFormed (d # cs))"

section \<open>Buffer encodings of Node.js\<close>

subsection \<open>\<^verbatim>\<open>buf.toString('base64')\<close>\<close>

definition base64_alphabet :: jsstring where
  "base64_alphabet = js ''ABCDEFGHIJKLMNOPQRSTUVWXYZabcdefghijklmnopqrstuvwxyz0123456789+/''"

definition base64_char :: "nat \<Rightarrow> 16 word" where
  "base64_char i = base64_alphabet ! (i mod 64)"

text \<open>Three bytes make four characters; a last group of one or two bytes is padded with
  \<^verbatim>\<open>=\<close> (code unit \<open>0x3D\<close>).\<close>

fun toString_base64 :: "byte list \<Rightarrow> jsstring" where
  "toString_base64 [] = []"
| "toString_base64 [a] =
     (let n = unat a * 65536
      in [base64_char (n div 262144), base64_char (n div 4096), 0x3D, 0x3D])"
| "toString_base64 [a, b] =
     (let n = unat a * 65536 + unat b * 256
      in [base64_char (n div 262144), base64_char (n div 4096), base64_char (n div 64), 0x3D])"
| "toString_base64 (a # b # c # rest) =
     (let n = unat a * 65536 + unat b * 256 + unat c
      in [base64_char (n div 262144), base64_char (n div 4096), base64_char (n div 64),
          base64_char n] @ toString_base64 rest)"

subsection \<open>\<^verbatim>\<open>buf.toString('hex')\<close> and \<^verbatim>\<open>Buffer.from(s, 'hex')\<close>\<close>

definition hex_digit :: "nat \<Rightarrow> 16 word" where
  "hex_digit n = js ''0123456789abcdef'' ! (n mod 16)"

definition toString_hex :: "byte list \<Rightarrow> jsstring" where
  "toString_hex bs = concat (map (\<lambda>b. [hex_digit (unat b div 16), hex_digit (unat b)]) bs)"

text \<open>Decoding looks at the low byte of a code unit only, and accepts both cases of the
  letters.\<close>

definition unhex :: "16 word \<Rightarrow> nat option" where
  "unhex c =
     (let u = unat c mod 256 in
      if 0x30 \<le> u \<and> u \<le> 0x39 then Some (u - 0x30)
      else if 0x61 \<le> u \<and> u \<le> 0x66 then Some (u - 0x61 + 10)
      else if 0x41 \<le> u \<and> u \<le> 0x46 then Some (u - 0x41 + 10)
      else None)"

text \<open>Decoding reads two characters per byte and stops at the first pair that is not
  hexadecimal; a last single character is dropped.\<close>

fun from_hex :: "jsstring \<Rightarrow> byte list" where
  "from_hex (a # b # rest) =
     (case unhex a of
        None \<Rightarrow> []
      | Some x \<Rightarrow> (case unhex b of None \<Rightarrow> [] | Some y \<Rightarrow> of_nat (16 * x + y) # from_hex rest))"
| "from_hex s = []"

subsection \<open>\<^verbatim>\<open>Buffer.from(s, 'utf8')\<close>\<close>

definition utf8_bytes :: "nat \<Rightarrow> byte list" where
  "utf8_bytes cp =
     (if cp < 0x80 then [of_nat cp]
      else if cp < 0x800 then [of_nat (0xC0 + cp div 64), of_nat (0x80 + cp mod 64)]
      else if cp < 0x10000 then
        [of_nat (0xE0 + cp div 4096), of_nat (0x80 + cp div 64 mod 64), of_nat (0x80 + cp mod 64)]
      else
        [of_nat (0xF0 + cp div 262144), of_nat (0x80 + cp div 4096 mod 64),
         of_nat (0x80 + cp div 64 mod 64), of_nat (0x80 + cp mod 64)])"

definition surrogate_pair_value :: "16 word \<Rightarrow> 16 word \<Rightarrow> nat" where
  "surrogate_pair_value hi lo = 0x10000 + (unat hi - 0xD800) * 0x400 + (unat lo - 0xDC00)"

text \<open>A surrogate pair is one code point; an unpaired surrogate is written as U+FFFD
  (bytes \<^verbatim>\<open>EF BF BD\<close>).\<close>

fun utf8_encode :: "jsstring \<Rightarrow> byte list" where
  "utf8_encode [] = []"
| "utf8_encode [c] =
     (if is_high_surrogate c \<or> is_low_surrogate c then utf8_bytes 0xFFFD
      else utf8_bytes (unat c))"
| "utf8_encode (c # d # cs) =
     (if is_high_surrogate c then
        (if is_low_surrogate d then utf8_bytes (surrogate_pair_value c d) @ utf8_encode cs
         else utf8_bytes 0xFFFD @ utf8_encode (d # cs))
      else if is_low_surrogate c then utf8_bytes 0xFFFD @ utf8_encode (d # cs)
      else utf8_bytes (unat c) @ utf8_encode (d # cs))"

subsection \<open>The streaming UTF-8 decoder (\<^verbatim>\<open>StringDecoder('utf8')\<close>)\<close>

text \<open>
  The decoder reads one byte at a time and keeps the code point under construction between
  calls, so a character cut by a chunk boundary is completed by the next chunk. A byte that
  cannot continue the sequence ends it with U+FFFD and is read again as a first byte.
\<close>

record utf8_decoder =
  code_point :: nat
  bytes_seen :: nat
  bytes_needed :: nat
  lower_boundary :: nat
  upper_boundary :: nat

definition utf8_decoder_init :: utf8_decoder where
  "utf8_decoder_init =
     \<lparr>code_point = 0, bytes_seen = 0, bytes_needed = 0, lower_boundary = 0x80,
      upper_boundary = 0xBF\<rparr>"

definition utf16_units :: "nat \<Rightarrow> jsstring" where
  "utf16_units cp =
     (if cp < 0x10000 then [of_nat cp]
      else [of_nat (0xD800 + (cp - 0x10000) div 0x400),
            of_nat (0xDC00 + (cp - 0x10000) mod 0x400)])"

definition utf8_lead :: "nat \<Rightarrow> utf8_decoder \<times> jsstring" where
  "utf8_lead b =
     (if b \<le> 0x7F then (utf8_decoder_init, [of_nat b])
      else if 0xC2 \<le> b \<and> b \<le> 0xDF then
        (utf8_decoder_init\<lparr>bytes_needed := 1, code_point := b - 0xC0\<rparr>, [])
      else if 0xE0 \<le> b \<and> b \<le> 0xEF then
        (utf8_decoder_init\<lparr>bytes_needed := 2, code_point := b - 0xE0,
           lower_boundary := (if b = 0xE0 then 0xA0 else 0x80),
           upper_boundary := (if b = 0xED then 0x9F else 0xBF)\<rparr>, [])
      else if 0xF0 \<le> b \<and> b \<le> 0xF4 then
        (utf8_decoder_init\<lparr>bytes_needed := 3, code_point := b - 0xF0,
           lower_boundary := (if b = 0xF0 then 0x90 else 0x80),
           upper_boundary := (if b = 0xF4 then 0x8F else 0xBF)\<rparr>, [])
      else (utf8_decoder_init, [0xFFFD]))"

definition utf8_handler :: "utf8_decoder \<Rightarrow> byte \<Rightarrow> utf8_decoder \<times> jsstring" where
  "utf8_handler d byte =
     (let b = unat byte in
      if bytes_needed d = 0 then utf8_lead b
      else if b < lower_boundary d \<or> upper_boundary d < b then
        (case utf8_lead b of (d', out) \<Rightarrow> (d', 0xFFFD # out))
      else
        (let cp = code_point d * 64 + (b - 0x80) in
         if bytes_seen d + 1 \<noteq> bytes_needed d then
           (d\<lparr>code_point := cp, bytes_seen := bytes_seen d + 1, lower_boundary := 0x80,
              upper_boundary := 0xBF\<rparr>, [])
         else (utf8_decoder_init, utf16_units cp)))"

text \<open>\<^verbatim>\<open>decoder.write(buf)\<close>: the text decoded so far and the decoder afterwards.\<close>

fun utf8_write :: "utf8_decoder \<Rightarrow> byte list \<Rightarrow> utf8_decoder \<times> jsstring" where
  "utf8_write d [] = (d, [])"
| "utf8_write d (b # bs) =
     (case utf8_handler d b of (d', out) \<Rightarrow>
        (case utf8_write d' bs of (d'', out') \<Rightarrow> (d'', out @ out')))"

text \<open>\<^verbatim>\<open>decoder.end(buf)\<close>: an unfinished character at the end becomes U+FFFD.\<close>

definition utf8_end :: "utf8_decoder \<Rightarrow> byte list \<Rightarrow> jsstring" where
  "utf8_end d bs =
     (case utf8_write d bs of (d', out) \<Rightarrow>
        if bytes_needed d' = 0 then out else out @ [0xFFFD])"

section \<open>AES-256 (FIPS 197)\<close>

text \<open>
  The block cipher behind \<^verbatim>\<open>'aes-256-cbc'\<close>. The state is the block as 16 bytes in
  column order: byte \<open>r + 4c\<close> is row \<open>r\<close> of column \<open>c\<close>.
\<close>

definition sbox_table :: "byte list" where
  "sbox_table = [
      0x63, 0x7C, 0x77, 0x7B, 0xF2, 0x6B, 0x6F, 0xC5, 0x30, 0x01, 0x67, 0x2B, 0xFE, 0xD7, 0xAB, 0x76,
      0xCA, 0x82, 0xC9, 0x7D, 0xFA, 0x59, 0x47, 0xF0, 0xAD, 0xD4, 0xA2, 0xAF, 0x9C, 0xA4, 0x72, 0xC0,
      0xB7, 0xFD, 0x93, 0x26, 0x36, 0x3F, 0xF7, 0xCC, 0x34, 0xA5, 0xE5, 0xF1, 0x71, 0xD8, 0x31, 0x15,
      0x04, 0xC7, 0x23, 0xC3, 0x18, 0x96, 0x05, 0x9A, 0x07, 0x12, 0x80, 0xE2, 0xEB, 0x27, 0xB2, 0x75,
      0x09, 0x83, 0x2C, 0x1A, 0x1B, 0x6E, 0x5A, 0xA0, 0x52, 0x3B, 0xD6, 0xB3, 0x29, 0xE3, 0x2F, 0x84,
      0x53, 0xD1, 0x00, 0xED, 0x20, 0xFC, 0xB1, 0x5B, 0x6A, 0xCB, 0xBE, 0x39, 0x4A, 0x4C, 0x58, 0xCF,
      0xD0, 0xEF, 0xAA, 0xFB, 0x43, 0x4D, 0x33, 0x85, 0x45, 0xF9, 0x02, 0x7F, 0x50, 0x3C, 0x9F, 0xA8,
      0x51, 0xA3, 0x40, 0x8F, 0x92, 0x9D, 0x38, 0xF5, 0xBC, 0xB6, 0xDA, 0x21, 0x10, 0xFF, 0xF3, 0xD2,
      0xCD, 0x0C, 0x13, 0xEC, 0x5F, 0x97, 0x44, 0x17, 0xC4, 0xA7, 0x7E, 0x3D, 0x64, 0x5D, 0x19, 0x73,
      0x60, 0x81, 0x4F, 0xDC, 0x22, 0x2A, 0x90, 0x88, 0x46, 0xEE, 0xB8, 0x14, 0xDE, 0x5E, 0x0B, 0xDB,
      0xE0, 0x32, 0x3A, 0x0A, 0x49, 0x06, 0x24, 0x5C, 0xC2, 0xD3, 0xAC, 0x62, 0x91, 0x95, 0xE4, 0x79,
      0xE7, 0xC8, 0x37, 0x6D, 0x8D, 0xD5, 0x4E, 0xA9, 0x6C, 0x56, 0xF4, 0xEA, 0x65, 0x7A, 0xAE, 0x08,
      0xBA, 0x78, 0x25, 0x2E, 0x1C, 0xA6, 0xB4, 0xC6, 0xE8, 0xDD, 0x74, 0x1F, 0x4B, 0xBD, 0x8B, 0x8A,
      0x70, 0x3E, 0xB5, 0x66, 0x48, 0x03, 0xF6, 0x0E, 0x61, 0x35, 0x57, 0xB9, 0x86, 0xC1, 0x1D, 0x9E,
      0xE1, 0xF8, 0x98, 0x11, 0x69, 0xD9, 0x8E, 0x94, 0x9B, 0x1E, 0x87, 0xE9, 0xCE, 0x55, 0x28, 0xDF,
      0x8C, 0xA1, 0x89, 0x0D, 0xBF, 0xE6, 0x42, 0x68, 0x41, 0x99, 0x2D, 0x0F, 0xB0, 0x54, 0xBB, 0x16]"

definition inv_sbox_table :: "byte list" where
  "inv_sbox_table = [
      0x52, 0x09, 0x6A, 0xD5, 0x30, 0x36, 0xA5, 0x38, 0xBF, 0x40, 0xA3, 0x9E, 0x81, 0xF3, 0xD7, 0xFB,
      0x7C, 0xE3, 0x39, 0x82, 0x9B, 0x2F, 0xFF, 0x87, 0x34, 0x8E, 0x43, 0x44, 0xC4, 0xDE, 0xE9, 0xCB,
      0x54, 0x7B, 0x94, 0x32, 0xA6, 0xC2, 0x23, 0x3D, 0xEE, 0x4C, 0x95, 0x0B, 0x42, 0xFA, 0xC3, 0x4E,
      0x08, 0x2E, 0xA1, 0x66, 0x28, 0xD9, 0x24, 0xB2, 0x76, 0x5B, 0xA2, 0x49, 0x6D, 0x8B, 0xD1, 0x25,
      0x72, 0xF8, 0xF6, 0x64, 0x86, 0x68, 0x98, 0x16, 0xD4, 0xA4, 0x5C, 0xCC, 0x5D, 0x65, 0xB6, 0x92,
      0x6C, 0x70, 0x48, 0x50, 0xFD, 0xED, 0xB9, 0xDA, 0x5E, 0x15, 0x46, 0x57, 0xA7, 0x8D, 0x9D, 0x84,
      0x90, 0xD8, 0xAB, 0x00, 0x8C, 0xBC, 0xD3, 0x0A, 0xF7, 0xE4, 0x58, 0x05, 0xB8, 0xB3, 0x45, 0x06,
      0xD0, 0x2C, 0x1E, 0x8F, 0xCA, 0x3F, 0x0F, 0x02, 0xC1, 0xAF, 0xBD, 0x03, 0x01, 0x13, 0x8A, 0x6B,
      0x3A, 0x91, 0x11, 0x41, 0x4F, 0x67, 0xDC, 0xEA, 0x97, 0xF2, 0xCF, 0xCE, 0xF0, 0xB4, 0xE6, 0x73,
      0x96, 0xAC, 0x74, 0x22, 0xE7, 0xAD, 0x35, 0x85, 0xE2, 0xF9, 0x37, 0xE8, 0x1C, 0x75, 0xDF, 0x6E,
      0x47, 0xF1, 0x1A, 0x71, 0x1D, 0x29, 0xC5, 0x89, 0x6F, 0xB7, 0x62, 0x0E, 0xAA, 0x18, 0xBE, 0x1B,
      0xFC, 0x56, 0x3E, 0x4B, 0xC6, 0xD2, 0x79, 0x20, 0x9A, 0xDB, 0xC0, 0xFE, 0x78, 0xCD, 0x5A, 0xF4,
      0x1F, 0xDD, 0xA8, 0x33, 0x88, 0x07, 0xC7, 0x31, 0xB1, 0x12, 0x10, 0x59, 0x27, 0x80, 0xEC, 0x5F,
      0x60, 0x51, 0x7F, 0xA9, 0x19, 0xB5, 0x4A, 0x0D, 0x2D, 0xE5, 0x7A, 0x9F, 0x93, 0xC9, 0x9C, 0xEF,
      0xA0, 0xE0, 0x3B, 0x4D, 0xAE, 0x2A, 0xF5, 0xB0, 0xC8, 0xEB, 0xBB, 0x3C, 0x83, 0x53, 0x99, 0x61,
      0x17, 0x2B, 0x04, 0x7E, 0xBA, 0x77, 0xD6, 0x26, 0xE1, 0x69, 0x14, 0x63, 0x55, 0x21, 0x0C, 0x7D]"

definition sbox :: "byte \<Rightarrow> byte" where
  "sbox x = sbox_table ! unat x"

definition inv_sbox :: "byte \<Rightarrow> byte" where
  "inv_sbox x = inv_sbox_table ! unat x"

text \<open>Multiplication in \<^verbatim>\<open>GF(2^8)\<close> by the constants of MixColumns and its inverse.\<close>

definition xtime :: "byte \<Rightarrow> byte" where
  "xtime b = push_bit 1 b XOR (if bit b 7 then 0x1B else 0)"

definition mul3 :: "byte \<Rightarrow> byte" where "mul3 b = xtime b XOR b"
definition mul9 :: "byte \<Rightarrow> byte" where "mul9 b = xtime (xtime (xtime b)) XOR b"
definition mul11 :: "byte \<Rightarrow> byte" where "mul11 b = xtime (xtime (xtime b) XOR b) XOR b"
definition mul13 :: "byte \<Rightarrow> byte" where "mul13 b = xtime (xtime (xtime b XOR b)) XOR b"
definition mul14 :: "byte \<Rightarrow> byte" where "mul14 b = xtime (xtime (xtime b XOR b) XOR b)"

definition sub_bytes :: "byte list \<Rightarrow> byte list" where
  "sub_bytes st = map sbox st"

definition inv_sub_bytes :: "byte list \<Rightarrow> byte list" where
  "inv_sub_bytes st = map inv_sbox st"

fun shift_rows :: "byte list \<Rightarrow> byte list" where
  "shift_rows [s0, s1, s2, s3, s4, s5, s6, s7, s8, s9, s10, s11, s12, s13, s14, s15] =
     [s0, s5, s10, s15, s4, s9, s14, s3, s8, s13, s2, s7, s12, s1, s6, s11]"
| "shift_rows st = st"

fun inv_shift_rows :: "byte list \<Rightarrow> byte list" where
  "inv_shift_rows [s0, s1, s2, s3, s4, s5, s6, s7, s8, s9, s10, s11, s12, s13, s14, s15] =
     [s0, s13, s10, s7, s4, s1, s14, s11, s8, s5, s2, s15, s12, s9, s6, s3]"
| "inv_shift_rows st = st"

fun mix_columns :: "byte list \<Rightarrow> byte list" where
  "mix_columns (a # b # c # d # rest) =
     [xtime a XOR mul3 b XOR c XOR d,
      a XOR xtime b XOR mul3 c XOR d,
      a XOR b XOR xtime c XOR mul3 d,
      mul3 a XOR b XOR c XOR xtime d] @ mix_columns rest"
| "mix_columns st = st"

fun inv_mix_columns :: "byte list \<Rightarrow> byte list" where
  "inv_mix_columns (a # b # c # d # rest) =
     [mul14 a XOR mul11 b XOR mul13 c XOR mul9 d,
      mul9 a XOR mul14 b XOR mul11 c XOR mul13 d,
      mul13 a XOR mul9 b XOR mul14 c XOR mul11 d,
      mul11 a XOR mul13 b XOR mul9 c XOR mul14 d] @ inv_mix_columns rest"
| "inv_mix_columns st = st"

definition add_round_key :: "byte list \<Rightarrow> byte list \<Rightarrow> byte list" where
  "add_round_key rk st = map2 (XOR) st rk"

text \<open>Key expansion for a 256-bit key: 60 words, 15 round keys.\<close>

definition word_of_bytes :: "byte \<Rightarrow> byte \<Rightarrow> byte \<Rightarrow> byte \<Rightarrow> 32 word" where
  "word_of_bytes a b c d =
     push_bit 24 (ucast a) OR push_bit 16 (ucast b) OR push_bit 8 (ucast c) OR ucast d"

definition bytes_of_word :: "32 word \<Rightarrow> byte list" where
  "bytes_of_word w = [ucast (drop_bit 24 w), ucast (drop_bit 16 w), ucast (drop_bit 8 w), ucast w]"

definition sub_word :: "32 word \<Rightarrow> 32 word" where
  "sub_word w =
     word_of_bytes (sbox (ucast (drop_bit 24 w))) (sbox (ucast (drop_bit 16 w)))
       (sbox (ucast (drop_bit 8 w))) (sbox (ucast w))"

definition rot_word :: "32 word \<Rightarrow> 32 word" where
  "rot_word w = push_bit 8 w OR drop_bit 24 w"

definition rcon :: "nat \<Rightarrow> 32 word" where
  "rcon j = push_bit 24 ([0x01, 0x02, 0x04, 0x08, 0x10, 0x20, 0x40] ! (j - 1))"

definition key_schedule_step :: "nat \<Rightarrow> 32 word list \<Rightarrow> 32 word list" where
  "key_schedule_step i w =
     (let temp = w ! (i - 1);
          temp' = (if i mod 8 = 0 then sub_word (rot_word temp) XOR rcon (i div 8)
                   else if i mod 8 = 4 then sub_word temp
                   else temp)
      in w @ [w ! (i - 8) XOR temp'])"

definition key_expansion :: "byte list \<Rightarrow> 32 word list" where
  "key_expansion key =
     fold key_schedule_step [8..<60]
       (map (\<lambda>i. word_of_bytes (key ! (4 * i)) (key ! (4 * i + 1)) (key ! (4 * i + 2))
                   (key ! (4 * i + 3))) [0..<8])"

definition round_key :: "32 word list \<Rightarrow> nat \<Rightarrow> byte list" where
  "round_key w r =
     bytes_of_word (w ! (4 * r)) @ bytes_of_word (w ! (4 * r + 1)) @
     bytes_of_word (w ! (4 * r + 2)) @ bytes_of_word (w ! (4 * r + 3))"

definition encrypt_round :: "32 word list \<Rightarrow> nat \<Rightarrow> byte list \<Rightarrow> byte list" where
  "encrypt_round w r st = add_round_key (round_key w r) (mix_columns (shift_rows (sub_bytes st)))"

definition decrypt_round :: "32 word list \<Rightarrow> nat \<Rightarrow> byte list \<Rightarrow> byte list" where
  "decrypt_round w r st =
     inv_sub_bytes (inv_shift_rows (inv_mix_columns (add_round_key (round_key w r) st)))"

definition aes256_encrypt_block :: "32 word list \<Rightarrow> byte list \<Rightarrow> byte list" where
  "aes256_encrypt_block w block =
     add_round_key (round_key w 14)
       (shift_rows (sub_bytes (fold (encrypt_round w) [1..<14] (add_round_key (round_key w 0) block))))"

definition aes256_decrypt_block :: "32 word list \<Rightarrow> byte list \<Rightarrow> byte list" where
  "aes256_decrypt_block w block =
     add_round_key (round_key w 0)
       (fold (decrypt_round w) (rev [1..<14])
          (inv_sub_bytes (inv_shift_rows (add_round_key (round_key w 14) block))))"

section \<open>Cipher objects of Node.js \<^verbatim>\<open>crypto\<close> for \<^verbatim>\<open>'aes-256-cbc'\<close>\<close>

text \<open>
  The exceptions of the platform that the program can meet, by their \<^verbatim>\<open>code\<close>:
  a failure of the random generator, a failure of scrypt,
  \<^verbatim>\<open>ERR_CRYPTO_INVALID_IV\<close>, \<^verbatim>\<open>ERR_CRYPTO_INVALID_KEYLEN\<close>,
  \<^verbatim>\<open>ERR_INVALID_ARG_VALUE\<close> (a \<^verbatim>\<open>TypeError\<close>),
  \<^verbatim>\<open>ERR_OSSL_WRONG_FINAL_BLOCK_LENGTH\<close> and \<^verbatim>\<open>ERR_OSSL_BAD_DECRYPT\<close>.
\<close>

datatype error =
  RandomBytesFailed
| ScryptFailed
| InvalidIV
| InvalidKeyLength
| InvalidArgValue
| WrongFinalBlockLength
| BadDecrypt

definition xor_block :: "byte list \<Rightarrow> byte list \<Rightarrow> byte list" where
  "xor_block a b = map2 (XOR) a b"

definition split_blocks :: "nat \<Rightarrow> byte list \<Rightarrow> byte list list" where
  "split_blocks n data = map (\<lambda>i. take 16 (drop (16 * i) data)) [0..<n]"

text \<open>Cipher block chaining over whole blocks: the output and the last chaining value.\<close>

fun cbc_encrypt :: "32 word list \<Rightarrow> byte list \<Rightarrow> byte list list \<Rightarrow> byte list \<times> byte list" where
  "cbc_encrypt w chain [] = ([], chain)"
| "cbc_encrypt w chain (p # ps) =
     (let c = aes256_encrypt_block w (xor_block p chain)
      in case cbc_encrypt w c ps of (out, chain') \<Rightarrow> (c @ out, chain'))"

fun cbc_decrypt :: "32 word list \<Rightarrow> byte list \<Rightarrow> byte list list \<Rightarrow> byte list \<times> byte list" where
  "cbc_decrypt w chain [] = ([], chain)"
| "cbc_decrypt w chain (c # cs) =
     (let p = xor_block (aes256_decrypt_block w c) chain
      in case cbc_decrypt w c cs of (out, chain') \<Rightarrow> (p @ out, chain'))"

text \<open>
  A \<^verbatim>\<open>Cipher\<close> holds the expanded key, the chaining value and the input bytes that do not
  yet fill a block.
\<close>

record Cipher =
  cipher_key :: "32 word list"
  cipher_chain :: "byte list"
  cipher_buf :: "byte list"

text \<open>
  A \<^verbatim>\<open>Decipher\<close> holds in addition the last decrypted block, kept back until
  \<^verbatim>\<open>final\<close> has checked its padding, and the decoder of its text output.
\<close>

record Decipher =
  decipher_key :: "32 word list"
  decipher_chain :: "byte list"
  decipher_buf :: "byte list"
  decipher_final_block :: "byte list option"
  decipher_decoder :: utf8_decoder

text \<open>
  \<^verbatim>\<open>crypto.createCipheriv('aes-256-cbc', key, iv)\<close> with key and IV given as strings: both
  are taken as UTF-8. The IV must be one block, the key 32 bytes.
\<close>

definition createCipheriv :: "jsstring \<Rightarrow> jsstring \<Rightarrow> error + Cipher" where
  "createCipheriv key iv =
     (if length (utf8_encode iv) \<noteq> 16 then Inl InvalidIV
      else if length (utf8_encode key) \<noteq> 32 then Inl InvalidKeyLength
      else Inr \<lparr>cipher_key = key_expansion (utf8_encode key), cipher_chain = utf8_encode iv,
                cipher_buf = []\<rparr>)"

definition createDecipheriv :: "jsstring \<Rightarrow> jsstring \<Rightarrow> error + Decipher" where
  "createDecipheriv key iv =
     (if length (utf8_encode iv) \<noteq> 16 then Inl InvalidIV
      else if length (utf8_encode key) \<noteq> 32 then Inl InvalidKeyLength
      else Inr \<lparr>decipher_key = key_expansion (utf8_encode key), decipher_chain = utf8_encode iv,
                decipher_buf = [], decipher_final_block = None,
                decipher_decoder = utf8_decoder_init\<rparr>)"

text \<open>\<^verbatim>\<open>cipher.update(data, 'utf8', 'hex')\<close>: every whole block is encrypted, the rest
  waits.\<close>

definition cipher_update :: "Cipher \<Rightarrow> jsstring \<Rightarrow> jsstring \<times> Cipher" where
  "cipher_update c data =
     (let input = cipher_buf c @ utf8_encode data;
          n = length input div 16
      in case cbc_encrypt (cipher_key c) (cipher_chain c) (split_blocks n input) of
           (out, chain') \<Rightarrow>
             (toString_hex out, c\<lparr>cipher_chain := chain', cipher_buf := drop (16 * n) input\<rparr>))"

text \<open>\<^verbatim>\<open>cipher.final('hex')\<close>: the waiting bytes are padded to a block, each padding byte
  being the number of padding bytes (1 to 16).\<close>

definition cipher_final :: "Cipher \<Rightarrow> jsstring" where
  "cipher_final c =
     (let pad = 16 - length (cipher_buf c);
          block = cipher_buf c @ replicate pad (of_nat pad)
      in toString_hex (fst (cbc_encrypt (cipher_key c) (cipher_chain c) [block])))"

text \<open>\<^verbatim>\<open>decipher.update(data, 'hex', 'utf8')\<close>: a string with an odd number of code
  units is refused before anything is decoded. Otherwise every whole block is decrypted; when
  the input ends on a block boundary the last decrypted block is kept back.\<close>

definition decipher_update :: "Decipher \<Rightarrow> jsstring \<Rightarrow> error + jsstring \<times> Decipher" where
  "decipher_update d data =
     (if odd (length data) then Inl InvalidArgValue
      else
        (let bytes = from_hex data in
         if bytes = [] then Inr ([], d)
         else
           (let input = decipher_buf d @ bytes;
                n = length input div 16;
                rest = drop (16 * n) input
            in case cbc_decrypt (decipher_key d) (decipher_chain d) (split_blocks n input) of
                 (plain, chain') \<Rightarrow>
                   (let out = (case decipher_final_block d of None \<Rightarrow> [] | Some f \<Rightarrow> f) @ plain;
                        emit = (if rest = [] then take (length out - 16) out else out);
                        kept = (if rest = [] then Some (drop (length out - 16) out) else None)
                    in case utf8_write (decipher_decoder d) emit of
                         (decoder', text) \<Rightarrow>
                           Inr (text, d\<lparr>decipher_chain := chain', decipher_buf := rest,
                                       decipher_final_block := kept,
                                       decipher_decoder := decoder'\<rparr>)))))"

text \<open>\<^verbatim>\<open>decipher.final('utf8')\<close>: fails on an incomplete block and on malformed padding;
  otherwise the kept block without its padding is decoded.\<close>

definition decipher_final :: "Decipher \<Rightarrow> error + jsstring" where
  "decipher_final d =
     (case decipher_final_block d of
        None \<Rightarrow> Inl WrongFinalBlockLength
      | Some f \<Rightarrow>
          if decipher_buf d \<noteq> [] then Inl WrongFinalBlockLength
          else
            (let n = unat (last f) in
             if n = 0 \<or> 16 < n then Inl BadDecrypt
             else if \<not> list_all (\<lambda>x. unat x = n) (drop (16 - n) f) then Inl BadDecrypt
             else Inr (utf8_end (decipher_decoder d) (take (16 - n) f))))"

section \<open>The environment: randomness, key derivation, console\<close>

text \<open>
  The world outside the program: the bytes the system's random generator will deliver, and
  the lines written to the console.
\<close>

record world =
  entropy :: "byte list"
  console :: "jsstring list"

type_synonym 'a io = "world \<Rightarrow> (error + 'a) \<times> world"

definition io_return :: "'a \<Rightarrow> 'a io" where
  "io_return x w = (Inr x, w)"

text \<open>An exception ends the sequence: the steps after it are not run.\<close>

definition io_bind :: "'a io \<Rightarrow> ('a \<Rightarrow> 'b io) \<Rightarrow> 'b io" where
  "io_bind m f w = (case m w of (Inl e, w') \<Rightarrow> (Inl e, w') | (Inr x, w') \<Rightarrow> f x w')"

definition io_lift :: "error + 'a \<Rightarrow> 'a io" where
  "io_lift r w = (r, w)"

text \<open>\<^verbatim>\<open>crypto.randomBytes(size)\<close>: the next \<open>size\<close> bytes of the generator, or an
  exception when it cannot deliver them.\<close>

definition randomBytes :: "nat \<Rightarrow> byte list io" where
  "randomBytes sz w =
     (if length (entropy w) < sz then (Inl RandomBytesFailed, w)
      else (Inr (take sz (entropy w)), w\<lparr>entropy := drop sz (entropy w)\<rparr>))"

definition console_log :: "jsstring \<Rightarrow> unit io" where
  "console_log line w = (Inr (), w\<lparr>console := console w @ [line]\<rparr>)"

text \<open>
  \<^verbatim>\<open>crypto.scryptSync(password, salt, keylen)\<close> with the default cost parameters. The
  scrypt function itself is a parameter of the model: for a password and a salt it fails or
  gives the stream of derived bytes, of which the call returns the first \<open>keylen\<close>
  (the output of scrypt is a PBKDF2 output, so a shorter key is a prefix of a longer one).
\<close>

type_synonym kdf = "byte list \<Rightarrow> byte list \<Rightarrow> (nat \<Rightarrow> byte) option"

definition scryptSync :: "kdf \<Rightarrow> jsstring \<Rightarrow> jsstring \<Rightarrow> nat \<Rightarrow> error + byte list" where
  "scryptSync scrypt password salt keylen =
     (case scrypt (utf8_encode password) (utf8_encode salt) of
        None \<Rightarrow> Inl ScryptFailed
      | Some stream \<Rightarrow> Inr (map stream [0..<keylen]))"

section \<open>The value objects\<close>

text \<open>
  Modelled from the spec: the classes \<^verbatim>\<open>Password\<close>, \<^verbatim>\<open>Salt\<close>,
  \<^verbatim>\<open>InitializationVector\<close> and \<^verbatim>\<open>CommonKey\<close> of \<^verbatim>\<open>./domainObject\<close> are
  imported by the source but are not part of it. The spec describes them as trivial typed,
  immutable holders; the source reads their field \<^verbatim>\<open>value\<close> only.
\<close>

datatype Password = Password (password_value: jsstring)
datatype Salt = Salt (salt_value: jsstring)
datatype InitializationVector = InitializationVector (iv_value: jsstring)
datatype CommonKey = CommonKey (commonKey_value: jsstring)

section \<open>\<^verbatim>\<open>CryptographProcessor\<close>\<close>

definition keyLength :: nat where
  "keyLength = 32"

definition createRandomBytes :: "nat \<Rightarrow> jsstring io" where
  "createRandomBytes sz =
     io_bind (randomBytes sz) (\<lambda>buf. io_return (substring 0 sz (toString_base64 buf)))"

definition createCommonKey :: "kdf \<Rightarrow> Password \<Rightarrow> Salt \<Rightarrow> error + CommonKey" where
  "createCommonKey scrypt password salt =
     (case scryptSync scrypt (password_value password) (salt_value salt) keyLength of
        Inl e \<Rightarrow> Inl e
      | Inr buf \<Rightarrow>
          (let key = substring 0 keyLength (toString_base64 buf)
           in Inr (CommonKey key)))"

definition createCipher :: "CommonKey \<Rightarrow> InitializationVector \<Rightarrow> error + Cipher" where
  "createCipher commonKey iv = createCipheriv (commonKey_value commonKey) (iv_value iv)"

definition createDecipher :: "CommonKey \<Rightarrow> InitializationVector \<Rightarrow> error + Decipher" where
  "createDecipher commonKey iv = createDecipheriv (commonKey_value commonKey) (iv_value iv)"

definition encryption :: "Cipher \<Rightarrow> jsstring \<Rightarrow> jsstring" where
  "encryption cipher target =
     (case cipher_update cipher target of
        (encryptionedData, cipher') \<Rightarrow> encryptionedData @ cipher_final cipher')"

definition decryption :: "Decipher \<Rightarrow> jsstring \<Rightarrow> error + jsstring" where
  "decryption decipher target =
     (case decipher_update decipher target of
        Inl e \<Rightarrow> Inl e
      | Inr (decryptionData, decipher') \<Rightarrow>
          (case decipher_final decipher' of
             Inl e \<Rightarrow> Inl e
           | Inr rest \<Rightarrow> Inr (decryptionData @ rest)))"

text \<open>The two Japanese labels of the last log lines, as code units: ``encrypted data: ''
  and ``decrypted data: ''.\<close>

definition label_encrypted :: jsstring where
  "label_encrypted =
     [0x6697, 0x53F7, 0x5316, 0x3057, 0x305F, 0x30C7, 0x30FC, 0x30BF, 0x003A, 0x0020]"

definition label_decrypted :: jsstring where
  "label_decrypted =
     [0x8907, 0x5408, 0x5316, 0x3057, 0x305F, 0x30C7, 0x30FC, 0x30BF, 0x003A, 0x0020]"

definition main :: "kdf \<Rightarrow> jsstring \<Rightarrow> jsstring list io" where
  "main scrypt target =
     io_bind (createRandomBytes 16) (\<lambda>r1. let password = Password r1 in
     io_bind (createRandomBytes 16) (\<lambda>r2. let salt = Salt r2 in
     io_bind (createRandomBytes 16) (\<lambda>r3. let iv = InitializationVector r3 in
     io_bind (console_log (js ''password.value: '' @ password_value password)) (\<lambda>_.
     io_bind (console_log (js ''salt.value: '' @ salt_value salt)) (\<lambda>_.
     io_bind (console_log (js ''iv.value: '' @ iv_value iv)) (\<lambda>_.
     io_bind (io_lift (createCommonKey scrypt password salt)) (\<lambda>commonKey.
     io_bind (console_log (js ''commonKey: '' @ commonKey_value commonKey)) (\<lambda>_.
     io_bind (io_lift (createCipher commonKey iv)) (\<lambda>cipher.
     let encryptionedData = encryption cipher target in
     io_bind (io_lift (createDecipher commonKey iv)) (\<lambda>decipher.
     io_bind (io_lift (decryption decipher encryptionedData)) (\<lambda>decryptionedData.
     io_bind (console_log (label_encrypted @ encryptionedData)) (\<lambda>_.
     io_bind (console_log (label_decrypted @ decryptionedData)) (\<lambda>_.
     io_return [encryptionedData, decryptionedData])))))))))))))"

section \<open>Notions used to state the results\<close>

text \<open>PKCS#7 padding of a byte string to whole blocks, and its removal as
  \<^verbatim>\<open>decipher.final\<close> checks it.\<close>

definition pkcs7_pad :: "byte list \<Rightarrow> byte list" where
  "pkcs7_pad bs = bs @ replicate (16 - length bs mod 16) (of_nat (16 - length bs mod 16))"

definition pkcs7_unpad :: "byte list \<Rightarrow> byte list option" where
  "pkcs7_unpad plain =
     (let f = drop (length plain - 16) plain; n = unat (last f) in
      if n = 0 \<or> 16 < n then None
      else if \<not> list_all (\<lambda>x. unat x = n) (drop (16 - n) f) then None
      else Some (take (length plain - 16) plain @ take (16 - n) f))"

text \<open>The ciphertext bytes of a plaintext byte string, and the bytes that a ciphertext
  of whole blocks decrypts to, padding included.\<close>

definition raw_ciphertext :: "32 word list \<Rightarrow> byte list \<Rightarrow> byte list \<Rightarrow> byte list" where
  "raw_ciphertext w iv bs =
     fst (cbc_encrypt w iv (split_blocks (length bs div 16 + 1) (pkcs7_pad bs)))"

definition raw_plaintext :: "32 word list \<Rightarrow> byte list \<Rightarrow> byte list \<Rightarrow> byte list" where
  "raw_plaintext w iv cs = fst (cbc_decrypt w iv (split_blocks (length cs div 16) cs))"

text \<open>The string that the call number \<open>i\<close> (from 0) of \<^verbatim>\<open>createRandomBytes(16)\<close>
  returns in a run that starts in world \<open>w\<close>, and the key string made from a stream of
  derived bytes.\<close>

definition draw :: "nat \<Rightarrow> world \<Rightarrow> jsstring" where
  "draw i w = take 16 (toString_base64 (take 16 (drop (16 * i) (entropy w))))"

definition derived_key :: "(nat \<Rightarrow> byte) \<Rightarrow> jsstring" where
  "derived_key stream = take 32 (toString_base64 (map stream [0..<32]))"





section \<open>A sample environment\<close>

text \<open>A generator that delivers the bytes 0 to 47 and a stand-in for scrypt, used where a
  statement is instantiated at concrete values, with the key, the IV and the cipher objects
  of the run of the pipeline in this environment.\<close>

definition sample_world :: world where
  "sample_world = \<lparr>entropy = map of_nat [0..<48], console = []\<rparr>"

definition sample_scrypt :: kdf where
  "sample_scrypt password salt = Some (\<lambda>i. of_nat (length password + length salt + i))"

definition sample_key :: CommonKey where
  "sample_key = CommonKey (js ''ICEiIyQlJicoKSorLC0uLzAxMjM0NTY3'')"

definition sample_iv :: InitializationVector where
  "sample_iv = InitializationVector (js ''ICEiIyQlJicoKSor'')"

definition sample_cipher :: Cipher where
  "sample_cipher =
     \<lparr>cipher_key = key_expansion (utf8_encode (commonKey_value sample_key)),
      cipher_chain = utf8_encode (iv_value sample_iv), cipher_buf = []\<rparr>"

definition sample_decipher :: Decipher where
  "sample_decipher =
     \<lparr>decipher_key = key_expansion (utf8_encode (commonKey_value sample_key)),
      decipher_chain = utf8_encode (iv_value sample_iv), decipher_buf = [],
      decipher_final_block = None, decipher_decoder = utf8_decoder_init\<rparr>"


section \<open>AES-256: decryption inverts encryption\<close>

lemma byte_exhaust:
  assumes "list_all (\<lambda>n. P (of_nat n :: byte)) [0..<256]"
  shows "P x"
proof -
  have "unat x < 256" using unsigned_less [of x] by simp
  then have "unat x \<in> set [0..<256]" by simp
  with assms have "P (of_nat (unat x))" unfolding list_all_iff by blast
  then show ?thesis by simp
qed

lemma inv_sbox_sbox: "inv_sbox (sbox x) = x"
  by (rule byte_exhaust) code_simp

lemma xtime_xor: "xtime (a XOR b) = xtime a XOR xtime b"
  by (simp add: xtime_def bit_xor_iff push_bit_xor ac_simps)

lemma mul_xor:
  "mul3 (a XOR b) = mul3 a XOR mul3 b"
  "mul9 (a XOR b) = mul9 a XOR mul9 b"
  "mul11 (a XOR b) = mul11 a XOR mul11 b"
  "mul13 (a XOR b) = mul13 a XOR mul13 b"
  "mul14 (a XOR b) = mul14 a XOR mul14 b"
  by (simp_all add: mul3_def mul9_def mul11_def mul13_def mul14_def xtime_xor ac_simps)

lemma mix_coeff_1: "mul14 (xtime x) XOR mul11 x XOR mul13 x XOR mul9 (mul3 x) = x"
  by (rule byte_exhaust) code_simp

lemma mix_coeff_2: "mul14 (mul3 x) XOR mul11 (xtime x) XOR mul13 x XOR mul9 x = 0"
  by (rule byte_exhaust) code_simp

lemma mix_coeff_3: "mul14 x XOR mul11 (mul3 x) XOR mul13 (xtime x) XOR mul9 x = 0"
  by (rule byte_exhaust) code_simp

lemma mix_coeff_4: "mul14 x XOR mul11 x XOR mul13 (mul3 x) XOR mul9 (xtime x) = 0"
  by (rule byte_exhaust) code_simp

lemma xor_group4:
  fixes a1 :: byte
  shows "(a1 XOR b1 XOR c1 XOR d1) XOR (a2 XOR b2 XOR c2 XOR d2) XOR (a3 XOR b3 XOR c3 XOR d3) XOR
     (a4 XOR b4 XOR c4 XOR d4) =
   (a1 XOR a2 XOR a3 XOR a4) XOR (b1 XOR b2 XOR b3 XOR b4) XOR (c1 XOR c2 XOR c3 XOR c4) XOR
     (d1 XOR d2 XOR d3 XOR d4)"
  by (simp add: ac_simps)

lemma inv_mix_row:
  "mul14 (xtime a XOR mul3 b XOR c XOR d) XOR mul11 (a XOR xtime b XOR mul3 c XOR d) XOR
   mul13 (a XOR b XOR xtime c XOR mul3 d) XOR mul9 (mul3 a XOR b XOR c XOR xtime d) = a"
proof -
  have "mul14 (xtime a XOR mul3 b XOR c XOR d) XOR mul11 (a XOR xtime b XOR mul3 c XOR d) XOR
      mul13 (a XOR b XOR xtime c XOR mul3 d) XOR mul9 (mul3 a XOR b XOR c XOR xtime d) =
    (mul14 (xtime a) XOR mul11 a XOR mul13 a XOR mul9 (mul3 a)) XOR
    (mul14 (mul3 b) XOR mul11 (xtime b) XOR mul13 b XOR mul9 b) XOR
    (mul14 c XOR mul11 (mul3 c) XOR mul13 (xtime c) XOR mul9 c) XOR
    (mul14 d XOR mul11 d XOR mul13 (mul3 d) XOR mul9 (xtime d))"
    unfolding mul_xor by (simp only: ac_simps)
  then show ?thesis by (simp only: mix_coeff_1 mix_coeff_2 mix_coeff_3 mix_coeff_4) simp
qed

lemma inv_mix_column:
  "inv_mix_columns (mix_columns (a # b # c # d # rest)) = a # b # c # d # inv_mix_columns (mix_columns rest)"
  using inv_mix_row [of a b c d] inv_mix_row [of b c d a] inv_mix_row [of c d a b]
    inv_mix_row [of d a b c]
  by (simp add: ac_simps)

lemma list16:
  assumes "length (st :: 'a list) = 16"
  obtains s0 s1 s2 s3 s4 s5 s6 s7 s8 s9 s10 s11 s12 s13 s14 s15
  where "st = [s0, s1, s2, s3, s4, s5, s6, s7, s8, s9, s10, s11, s12, s13, s14, s15]"
  using assms by (auto simp: numeral_eq_Suc length_Suc_conv)

lemma inv_mix_columns_mix_columns:
  "length st = 16 \<Longrightarrow> inv_mix_columns (mix_columns st) = st"
  by (erule list16) (simp only: inv_mix_column, simp)

lemma inv_shift_rows_shift_rows:
  "length st = 16 \<Longrightarrow> inv_shift_rows (shift_rows st) = st"
  by (erule list16) simp

lemma inv_sub_bytes_sub_bytes: "inv_sub_bytes (sub_bytes st) = st"
  by (simp add: inv_sub_bytes_def sub_bytes_def inv_sbox_sbox o_def)

lemma length_round_key: "length (round_key w r) = 16"
  by (simp add: round_key_def bytes_of_word_def)

lemma map2_xor_cancel:
  "length k = length (st :: byte list) \<Longrightarrow> map2 (XOR) (map2 (XOR) st k) k = st"
  by (induction st k rule: list_induct2') (simp_all add: ac_simps)

lemma add_round_key_cancel:
  "length st = 16 \<Longrightarrow> add_round_key (round_key w r) (add_round_key (round_key w r) st) = st"
  by (simp add: add_round_key_def map2_xor_cancel length_round_key)

lemma length_sub_bytes: "length (sub_bytes st) = length st"
  by (simp add: sub_bytes_def)

lemma length_inv_sub_bytes: "length (inv_sub_bytes st) = length st"
  by (simp add: inv_sub_bytes_def)

lemma length_shift_rows: "length st = 16 \<Longrightarrow> length (shift_rows st) = 16"
  by (erule list16) simp

lemma length_mix_columns: "length st = 16 \<Longrightarrow> length (mix_columns st) = 16"
  by (erule list16) simp

lemma length_add_round_key: "length st = 16 \<Longrightarrow> length (add_round_key (round_key w r) st) = 16"
  by (simp add: add_round_key_def length_round_key)

lemma length_encrypt_round: "length st = 16 \<Longrightarrow> length (encrypt_round w r st) = 16"
  by (simp add: encrypt_round_def length_add_round_key length_mix_columns length_shift_rows
      length_sub_bytes)

lemma decrypt_round_encrypt_round:
  "length st = 16 \<Longrightarrow> decrypt_round w r (encrypt_round w r st) = st"
  by (simp add: encrypt_round_def decrypt_round_def add_round_key_cancel length_mix_columns
      length_shift_rows length_sub_bytes inv_mix_columns_mix_columns inv_shift_rows_shift_rows
      inv_sub_bytes_sub_bytes)

lemma length_fold_encrypt_round:
  "length st = 16 \<Longrightarrow> length (fold (encrypt_round w) rs st) = 16"
  by (induction rs arbitrary: st) (simp_all add: length_encrypt_round)

lemma fold_decrypt_encrypt:
  "length st = 16 \<Longrightarrow> fold (decrypt_round w) (rev rs) (fold (encrypt_round w) rs st) = st"
  by (induction rs arbitrary: st)
    (simp_all add: decrypt_round_encrypt_round length_fold_encrypt_round length_encrypt_round)

lemma length_aes256_encrypt_block:
  "length block = 16 \<Longrightarrow> length (aes256_encrypt_block w block) = 16"
  by (simp add: aes256_encrypt_block_def length_add_round_key length_shift_rows length_sub_bytes
      length_fold_encrypt_round)

lemma aes256_decrypt_encrypt_block:
  "length block = 16 \<Longrightarrow> aes256_decrypt_block w (aes256_encrypt_block w block) = block"
  by (simp add: aes256_encrypt_block_def aes256_decrypt_block_def add_round_key_cancel
      length_shift_rows length_sub_bytes length_fold_encrypt_round length_add_round_key
      inv_shift_rows_shift_rows inv_sub_bytes_sub_bytes fold_decrypt_encrypt)

section \<open>Generated key material\<close>

lemma length_base64_alphabet: "length base64_alphabet = 64"
  by (simp add: base64_alphabet_def js_def)

lemma base64_char_in: "base64_char i \<in> set base64_alphabet"
  unfolding base64_char_def by (rule nth_mem) (simp add: length_base64_alphabet)

lemma set_take4:
  "set (take n (x1 # x2 # x3 # x4 # R)) \<subseteq> {x1, x2, x3, x4} \<union> set (take (n - 4) R)"
proof -
  have "take n (x1 # x2 # x3 # x4 # R) = take n [x1, x2, x3, x4] @ take (n - 4) R"
    using take_append [of n "[x1, x2, x3, x4]" R] by (simp add: numeral_eq_Suc)
  moreover have "set (take n [x1, x2, x3, x4]) \<subseteq> set [x1, x2, x3, x4]"
    by (rule set_take_subset)
  ultimately show ?thesis by auto
qed

lemma take_toString_base64:
  "n \<le> length bs \<Longrightarrow> set (take n (toString_base64 bs)) \<subseteq> set base64_alphabet"
proof (induction bs arbitrary: n rule: toString_base64.induct)
  case 1
  then show ?case by simp
next
  case (2 a)
  then show ?case by (cases n) (simp_all add: Let_def base64_char_in)
next
  case (3 a b)
  then have "n = 0 \<or> n = 1 \<or> n = 2" by auto
  then show ?case by (auto simp: Let_def base64_char_in)
next
  case (4 a b c rest)
  have "set (take (n - 4) (toString_base64 rest)) \<subseteq> set base64_alphabet"
    using 4 by simp
  then show ?case
    using set_take4 [of n _ _ _ _ "toString_base64 rest"]
    by (simp add: Let_def) (use base64_char_in in blast)
qed

lemma length_toString_base64: "length bs \<le> length (toString_base64 bs)"
  by (induction bs rule: toString_base64.induct) (simp_all add: Let_def)

lemma substring_0: "substring 0 n s = take n s"
  by (simp add: substring_def min_def)

lemma base64_alphabet_ascii: "c \<in> set base64_alphabet \<Longrightarrow> unat c < 0x80"
  by (auto simp: base64_alphabet_def js_def)

lemma utf8_encode_ascii:
  "list_all (\<lambda>c. unat c < 0x80) s \<Longrightarrow> utf8_encode s = map (\<lambda>c. of_nat (unat c)) s"
  by (induction s rule: utf8_encode.induct)
    (simp_all add: is_high_surrogate_def is_low_surrogate_def utf8_bytes_def)

lemma createRandomBytes_Inr:
  "createRandomBytes sz w = (Inr s, w') \<longleftrightarrow>
     sz \<le> length (entropy w) \<and> s = take sz (toString_base64 (take sz (entropy w))) \<and>
     w' = w\<lparr>entropy := drop sz (entropy w)\<rparr>"
  by (auto simp: createRandomBytes_def io_bind_def io_return_def randomBytes_def substring_0)


lemma createCommonKey_Inr:
  "createCommonKey scrypt password salt = Inr k \<longleftrightarrow>
     (\<exists>stream. scrypt (utf8_encode (password_value password)) (utf8_encode (salt_value salt)) =
        Some stream \<and>
      k = CommonKey (take 32 (toString_base64 (map stream [0..<32]))))"
  by (auto simp: createCommonKey_def scryptSync_def keyLength_def substring_0 Let_def
      split: option.splits)


lemma base64_prefix_alphabet:
  "length bs = n \<Longrightarrow> set (take n (toString_base64 bs)) \<subseteq> set base64_alphabet"
  by (rule take_toString_base64) simp

lemma base64_prefix_length: "length bs = n \<Longrightarrow> length (take n (toString_base64 bs)) = n"
  using length_toString_base64 [of bs] by simp

lemma base64_prefix_utf8:
  assumes "length bs = n"
  shows "length (utf8_encode (take n (toString_base64 bs))) = n"
proof -
  have "list_all (\<lambda>c. unat c < 0x80) (take n (toString_base64 bs))"
    using base64_prefix_alphabet [OF assms] base64_alphabet_ascii
    unfolding list_all_iff by blast
  then show ?thesis
    using base64_prefix_length [OF assms] by (simp add: utf8_encode_ascii)
qed

section \<open>UTF-8: decoding inverts encoding on well-formed strings\<close>

lemma utf8_write_append:
  "utf8_write d (xs @ ys) =
     (case utf8_write d xs of (d', out) \<Rightarrow>
        (case utf8_write d' ys of (d'', out') \<Rightarrow> (d'', out @ out')))"
  by (induction xs arbitrary: d) (simp_all split: prod.splits)

lemma utf8_end_append:
  "utf8_write d xs = (d', out) \<Longrightarrow> utf8_end d (xs @ ys) = out @ utf8_end d' ys"
  by (simp add: utf8_end_def utf8_write_append split: prod.splits)

lemma unat_byte_of_nat: "n < 256 \<Longrightarrow> unat (of_nat n :: byte) = n"
  by (simp add: unat_of_nat)

lemma utf8_handler_init: "utf8_handler utf8_decoder_init b = utf8_lead (unat b)"
  by (simp add: utf8_handler_def utf8_decoder_init_def)

lemma utf8_handler_more:
  assumes "bytes_needed d \<noteq> 0" "lower_boundary d \<le> unat b" "unat b \<le> upper_boundary d"
    "bytes_seen d + 1 \<noteq> bytes_needed d"
  shows "utf8_handler d b =
     (d\<lparr>code_point := code_point d * 64 + (unat b - 0x80), bytes_seen := bytes_seen d + 1,
        lower_boundary := 0x80, upper_boundary := 0xBF\<rparr>, [])"
  using assms by (simp add: utf8_handler_def Let_def)

lemma utf8_handler_last:
  assumes "bytes_needed d \<noteq> 0" "lower_boundary d \<le> unat b" "unat b \<le> upper_boundary d"
    "bytes_seen d + 1 = bytes_needed d"
  shows "utf8_handler d b =
     (utf8_decoder_init, utf16_units (code_point d * 64 + (unat b - 0x80)))"
  using assms by (simp add: utf8_handler_def Let_def)

lemma utf8_write_bytes1:
  assumes "cp < 0x80"
  shows "utf8_write utf8_decoder_init (utf8_bytes cp @ rest) =
     (case utf8_write utf8_decoder_init rest of (d, out) \<Rightarrow> (d, utf16_units cp @ out))"
  using assms
  by (simp add: utf8_bytes_def utf8_handler_init utf8_lead_def unat_byte_of_nat utf16_units_def
      split: prod.splits)

lemma utf8_write_bytes2:
  assumes "0x80 \<le> cp" "cp < 0x800"
  shows "utf8_write utf8_decoder_init (utf8_bytes cp @ rest) =
     (case utf8_write utf8_decoder_init rest of (d, out) \<Rightarrow> (d, utf16_units cp @ out))"
proof -
  define a b where "a = cp div 64" and "b = cp mod 64"
  define b0 b1 :: byte where "b0 = of_nat (0xC0 + a)" and "b1 = of_nat (0x80 + b)"
  have ab: "2 \<le> a" "a < 32" "b < 64" "a * 64 + b = cp"
    using assms by (auto simp: a_def b_def)
  have bytes: "utf8_bytes cp = [b0, b1]"
    using assms by (simp add: utf8_bytes_def a_def b_def b0_def b1_def)
  have u: "unat b0 = 0xC0 + a" "unat b1 = 0x80 + b"
    unfolding b0_def b1_def using ab by (simp_all only: unat_byte_of_nat)
  define d1 where "d1 = utf8_decoder_init\<lparr>bytes_needed := 1, code_point := a\<rparr>"
  have h0: "utf8_handler utf8_decoder_init b0 = (d1, [])"
    using ab by (simp add: utf8_handler_init u utf8_lead_def d1_def)
  have h1: "utf8_handler d1 b1 = (utf8_decoder_init, utf16_units cp)"
    using ab(3) utf8_handler_last [of d1 b1]
    by (simp add: d1_def utf8_decoder_init_def u ab(4))
  show ?thesis
    unfolding bytes by (simp add: h0 h1 split: prod.splits)
qed

lemma split3: "cp div 4096 * 4096 + cp div 64 mod 64 * 64 + cp mod 64 = (cp::nat)"
proof -
  define q r q2 r2 where "q = cp div 64" and "r = cp mod 64" and "q2 = q div 64"
    and "r2 = q mod 64"
  have a: "cp div 4096 = q2"
    by (simp add: q2_def q_def div_mult2_eq [symmetric])
  have "cp = q * 64 + r" "q = q2 * 64 + r2"
    by (simp_all add: q_def r_def q2_def r2_def)
  then have "q2 * 4096 + r2 * 64 + r = cp"
    by arith
  then show ?thesis
    by (simp only: a r2_def [symmetric] q_def [symmetric] r_def [symmetric])
qed

lemma split4:
  "cp div 262144 * 262144 + cp div 4096 mod 64 * 4096 + cp div 64 mod 64 * 64 + cp mod 64 =
   (cp::nat)"
proof -
  define q q2 r2 where "q = cp div 4096" and "q2 = q div 64" and "r2 = q mod 64"
  have a: "cp div 262144 = q2"
    by (simp add: q2_def q_def div_mult2_eq [symmetric])
  have "q = q2 * 64 + r2"
    by (simp add: q2_def r2_def)
  then have "q2 * 262144 + r2 * 4096 = q * 4096"
    by arith
  then have "cp div 262144 * 262144 + cp div 4096 mod 64 * 4096 = cp div 4096 * 4096"
    by (simp only: a r2_def [symmetric] q_def [symmetric])
  then show ?thesis
    using split3 [of cp] by arith
qed

lemma utf8_write_bytes3:
  assumes "0x800 \<le> cp" "cp < 0x10000" "cp < 0xD800 \<or> 0xDFFF < cp"
  shows "utf8_write utf8_decoder_init (utf8_bytes cp @ rest) =
     (case utf8_write utf8_decoder_init rest of (d, out) \<Rightarrow> (d, utf16_units cp @ out))"
proof -
  define a b c where "a = cp div 4096" and "b = cp div 64 mod 64" and "c = cp mod 64"
  define b0 b1 b2 :: byte
    where "b0 = of_nat (0xE0 + a)" and "b1 = of_nat (0x80 + b)" and "b2 = of_nat (0x80 + c)"
  have abc: "a < 16" "b < 64" "c < 64" "a * 4096 + b * 64 + c = cp"
    using assms split3 [of cp] by (auto simp: a_def b_def c_def)
  have lo: "a = 0 \<Longrightarrow> 32 \<le> b" and hi: "a = 13 \<Longrightarrow> b < 32"
    using assms abc by arith+
  have bytes: "utf8_bytes cp = [b0, b1, b2]"
    using assms by (simp add: utf8_bytes_def a_def b_def c_def b0_def b1_def b2_def)
  have u: "unat b0 = 0xE0 + a" "unat b1 = 0x80 + b" "unat b2 = 0x80 + c"
    unfolding b0_def b1_def b2_def using abc by (simp_all only: unat_byte_of_nat)
  define d1 where "d1 = utf8_decoder_init\<lparr>bytes_needed := 2, code_point := a,
    lower_boundary := (if a = 0 then 0xA0 else 0x80),
    upper_boundary := (if a = 13 then 0x9F else 0xBF)\<rparr>"
  define d2 where "d2 = d1\<lparr>code_point := a * 64 + b, bytes_seen := 1,
    lower_boundary := 0x80, upper_boundary := 0xBF\<rparr>"
  have h0: "utf8_handler utf8_decoder_init b0 = (d1, [])"
    using abc(1) by (simp add: utf8_handler_init u utf8_lead_def d1_def)
  have h1: "utf8_handler d1 b1 = (d2, [])"
    using abc(2) lo hi utf8_handler_more [of d1 b1]
    by (auto simp: d1_def d2_def utf8_decoder_init_def u)
  have cp: "(a * 64 + b) * 64 + c = cp"
    using abc(4) by simp
  have h2: "utf8_handler d2 b2 = (utf8_decoder_init, utf16_units cp)"
    using abc(3) utf8_handler_last [of d2 b2]
    by (simp add: d1_def d2_def utf8_decoder_init_def u flip: cp)
  show ?thesis
    unfolding bytes by (simp add: h0 h1 h2 split: prod.splits)
qed

lemma utf8_write_bytes4:
  assumes "0x10000 \<le> cp" "cp < 0x110000"
  shows "utf8_write utf8_decoder_init (utf8_bytes cp @ rest) =
     (case utf8_write utf8_decoder_init rest of (d, out) \<Rightarrow> (d, utf16_units cp @ out))"
proof -
  define a b c e where "a = cp div 262144" and "b = cp div 4096 mod 64"
    and "c = cp div 64 mod 64" and "e = cp mod 64"
  define b0 b1 b2 b3 :: byte
    where "b0 = of_nat (0xF0 + a)" and "b1 = of_nat (0x80 + b)" and "b2 = of_nat (0x80 + c)"
      and "b3 = of_nat (0x80 + e)"
  have abc: "a < 5" "b < 64" "c < 64" "e < 64" "a * 262144 + b * 4096 + c * 64 + e = cp"
    using assms split4 [of cp] by (auto simp: a_def b_def c_def e_def)
  have lo: "a = 0 \<Longrightarrow> 16 \<le> b" and hi: "a = 4 \<Longrightarrow> b < 16"
    using assms abc by arith+
  have bytes: "utf8_bytes cp = [b0, b1, b2, b3]"
    using assms by (simp add: utf8_bytes_def a_def b_def c_def e_def b0_def b1_def b2_def b3_def)
  have u: "unat b0 = 0xF0 + a" "unat b1 = 0x80 + b" "unat b2 = 0x80 + c" "unat b3 = 0x80 + e"
    unfolding b0_def b1_def b2_def b3_def using abc by (simp_all only: unat_byte_of_nat)
  define d1 where "d1 = utf8_decoder_init\<lparr>bytes_needed := 3, code_point := a,
    lower_boundary := (if a = 0 then 0x90 else 0x80),
    upper_boundary := (if a = 4 then 0x8F else 0xBF)\<rparr>"
  define d2 where "d2 = d1\<lparr>code_point := a * 64 + b, bytes_seen := 1,
    lower_boundary := 0x80, upper_boundary := 0xBF\<rparr>"
  define d3 where "d3 = d2\<lparr>code_point := (a * 64 + b) * 64 + c, bytes_seen := 2,
    lower_boundary := 0x80, upper_boundary := 0xBF\<rparr>"
  have h0: "utf8_handler utf8_decoder_init b0 = (d1, [])"
    using abc(1) by (simp add: utf8_handler_init u utf8_lead_def d1_def)
  have h1: "utf8_handler d1 b1 = (d2, [])"
    using abc(2) lo hi utf8_handler_more [of d1 b1]
    by (auto simp: d1_def d2_def utf8_decoder_init_def u)
  have h2: "utf8_handler d2 b2 = (d3, [])"
    using abc(3) utf8_handler_more [of d2 b2]
    by (simp add: d1_def d2_def d3_def utf8_decoder_init_def u)
  have cp: "((a * 64 + b) * 64 + c) * 64 + e = cp"
    using abc(5) by simp
  have h3: "utf8_handler d3 b3 = (utf8_decoder_init, utf16_units cp)"
    using abc(4) utf8_handler_last [of d3 b3]
    by (simp add: d1_def d2_def d3_def utf8_decoder_init_def u flip: cp)
  show ?thesis
    unfolding bytes by (simp add: h0 h1 h2 h3 split: prod.splits)
qed

lemma utf8_write_bytes:
  assumes "cp < 0x110000" "cp < 0xD800 \<or> 0xDFFF < cp"
  shows "utf8_write utf8_decoder_init (utf8_bytes cp @ rest) =
     (case utf8_write utf8_decoder_init rest of (d, out) \<Rightarrow> (d, utf16_units cp @ out))"
proof -
  consider "cp < 0x80" | "0x80 \<le> cp" "cp < 0x800" | "0x800 \<le> cp" "cp < 0x10000"
    | "0x10000 \<le> cp" by linarith
  then show ?thesis
  proof cases
    case 1
    then show ?thesis by (rule utf8_write_bytes1)
  next
    case 2
    then show ?thesis by (rule utf8_write_bytes2)
  next
    case 3
    then show ?thesis using assms(2) by (rule utf8_write_bytes3)
  next
    case 4
    then show ?thesis using assms(1) by (rule utf8_write_bytes4)
  qed
qed

lemma utf16_units_unit: "utf16_units (unat (c :: 16 word)) = [c]"
  using unsigned_less [of c, where 'a = nat] by (simp add: utf16_units_def)

lemma utf16_units_pair:
  assumes "is_high_surrogate c" "is_low_surrogate d"
  shows "utf16_units (surrogate_pair_value c d) = [c, d]"
proof -
  define h l where "h = unat c - 0xD800" and "l = unat d - 0xDC00"
  have hl: "h < 0x400" "l < 0x400" "unat c = 0xD800 + h" "unat d = 0xDC00 + l"
    using assms by (auto simp: h_def l_def is_high_surrogate_def is_low_surrogate_def)
  have "of_nat (unat c) = c" "of_nat (unat d) = d"
    by simp_all
  then have cd: "of_nat (0xD800 + h) = c" "of_nat (0xDC00 + l) = d"
    unfolding hl(3,4) .
  have v: "surrogate_pair_value c d = 0x10000 + (h * 0x400 + l)"
    by (simp add: surrogate_pair_value_def h_def l_def)
  have "(h * 0x400 + l) div 0x400 = h" "(h * 0x400 + l) mod 0x400 = l"
    using hl(2) by simp_all
  then show ?thesis
    unfolding v utf16_units_def using cd by (simp del: of_nat_add)
qed

lemma surrogate_pair_value_range:
  assumes "is_high_surrogate c" "is_low_surrogate d"
  shows "0x10000 \<le> surrogate_pair_value c d" "surrogate_pair_value c d < 0x110000"
  using assms
  by (auto simp: surrogate_pair_value_def is_high_surrogate_def is_low_surrogate_def)

lemma not_surrogate_range:
  "\<not> is_high_surrogate c \<Longrightarrow> \<not> is_low_surrogate c \<Longrightarrow>
     unat c < 0x110000 \<and> (unat c < 0xD800 \<or> 0xDFFF < unat c)"
  using unsigned_less [of c, where 'a = nat]
  by (auto simp: is_high_surrogate_def is_low_surrogate_def)

lemma utf8_decode_encode:
  "isWellFormed s \<Longrightarrow> utf8_write utf8_decoder_init (utf8_encode s) = (utf8_decoder_init, s)"
proof (induction s rule: utf8_encode.induct)
  case 1
  then show ?case by simp
next
  case (2 c)
  then have "unat c < 0x110000" "unat c < 0xD800 \<or> 0xDFFF < unat c"
    using not_surrogate_range [of c] by simp_all
  from utf8_write_bytes [OF this, of "[]"] 2 show ?case
    by (simp add: utf16_units_unit)
next
  case (3 c d cs)
  show ?case
  proof (cases "is_high_surrogate c")
    case True
    with 3 have low: "is_low_surrogate d" and wf: "isWellFormed cs" by simp_all
    from 3 True low wf
    have IH: "utf8_write utf8_decoder_init (utf8_encode cs) = (utf8_decoder_init, cs)" by simp
    show ?thesis
      using True low utf8_write_bytes4 [OF surrogate_pair_value_range [OF True low]]
      by (simp add: IH utf16_units_pair)
  next
    case False
    with 3 have nl: "\<not> is_low_surrogate c" and wf: "isWellFormed (d # cs)" by simp_all
    from 3 False nl wf
    have IH: "utf8_write utf8_decoder_init (utf8_encode (d # cs)) = (utf8_decoder_init, d # cs)"
      by simp
    have "unat c < 0x110000" "unat c < 0xD800 \<or> 0xDFFF < unat c"
      using not_surrogate_range [OF False nl] by simp_all
    from utf8_write_bytes [OF this, of "utf8_encode (d # cs)"] False nl show ?thesis
      by (simp add: IH utf16_units_unit)
  qed
qed

lemma utf8_end_encode: "isWellFormed s \<Longrightarrow> utf8_end utf8_decoder_init (utf8_encode s) = s"
  by (simp add: utf8_end_def utf8_decode_encode) (simp add: utf8_decoder_init_def)

section \<open>Hexadecimal strings, blocks and chaining\<close>

lemma unhex_hex_digit: "n < 16 \<Longrightarrow> unhex (hex_digit n) = Some n"
proof -
  have "list_all (\<lambda>k. unhex (hex_digit k) = Some k) [0..<16]"
    by (simp add: upt_conv_Cons hex_digit_def js_def unhex_def)
  moreover assume "n < 16"
  ultimately show ?thesis
    unfolding list_all_iff by simp
qed

lemma hex_digit_mod: "hex_digit (n mod 16) = hex_digit n"
  by (simp add: hex_digit_def)

lemma from_hex_toString_hex: "from_hex (toString_hex bs) = bs"
proof (induction bs)
  case Nil
  then show ?case by (simp add: toString_hex_def)
next
  case (Cons b bs)
  have lt: "unat b div 16 < 16"
    using unsigned_less [of b, where 'a = nat] by simp
  have hi: "unhex (hex_digit (unat b div 16)) = Some (unat b div 16)"
    by (rule unhex_hex_digit [OF lt])
  have lo: "unhex (hex_digit (unat b)) = Some (unat b mod 16)"
    using unhex_hex_digit [of "unat b mod 16"] by (simp add: hex_digit_mod)
  have "of_nat (16 * (unat b div 16) + unat b mod 16) = (of_nat (unat b) :: byte)"
    by (simp only: mult_div_mod_eq)
  then have b: "of_nat (16 * (unat b div 16) + unat b mod 16) = b"
    by simp
  have step: "toString_hex (b # bs) =
      hex_digit (unat b div 16) # hex_digit (unat b) # toString_hex bs"
    by (simp add: toString_hex_def)
  show ?case
    unfolding step using Cons.IH by (simp only: from_hex.simps hi lo option.case b)
qed

lemma toString_hex_append: "toString_hex (xs @ ys) = toString_hex xs @ toString_hex ys"
  by (simp add: toString_hex_def)

lemma length_toString_hex: "length (toString_hex bs) = 2 * length bs"
  by (induction bs) (simp_all add: toString_hex_def)

lemma hex_digit_in: "hex_digit n \<in> set (js ''0123456789abcdef'')"
  unfolding hex_digit_def by (rule nth_mem) (simp add: js_def)

lemma set_toString_hex: "set (toString_hex bs) \<subseteq> set (js ''0123456789abcdef'')"
  using hex_digit_in by (auto simp: toString_hex_def)

lemma split_blocks_Suc:
  "split_blocks (Suc n) data = take 16 data # split_blocks n (drop 16 data)"
proof -
  have "map (\<lambda>i. take 16 (drop (16 * i) data)) [0..<Suc n] =
      take 16 (drop (16 * 0) data) # map (\<lambda>i. take 16 (drop (16 * Suc i) data)) [0..<n]"
    by (simp only: map_upt_Suc)
  moreover have "drop (16 * Suc i) data = drop (16 * i) (drop 16 data)" for i
    by (simp add: add.commute)
  ultimately show ?thesis
    by (simp add: split_blocks_def)
qed

lemma split_blocks_0: "split_blocks 0 data = []"
  by (simp add: split_blocks_def)

lemma length_split_blocks: "length (split_blocks n data) = n"
  by (simp add: split_blocks_def)

lemma split_blocks_append:
  "length xs = 16 * n \<Longrightarrow> split_blocks (n + m) (xs @ ys) = split_blocks n xs @ split_blocks m ys"
proof (induction n arbitrary: xs)
  case 0
  then show ?case by (simp add: split_blocks_0)
next
  case (Suc n)
  then have "length (drop 16 xs) = 16 * n" by simp
  from Suc.IH [OF this] Suc.prems show ?case
    by (simp add: split_blocks_Suc)
qed

lemma split_blocks_take:
  "split_blocks n (take (16 * n) data) = split_blocks n data"
  by (simp add: split_blocks_def take_drop min_def) 

lemma blocks_length:
  "16 * n \<le> length data \<Longrightarrow> list_all (\<lambda>p. length p = 16) (split_blocks n data)"
  by (auto simp: split_blocks_def list_all_iff)

lemma concat_split_blocks:
  "16 * n \<le> length data \<Longrightarrow> concat (split_blocks n data) = take (16 * n) data"
proof (induction n arbitrary: data)
  case 0
  then show ?case by (simp add: split_blocks_0)
next
  case (Suc n)
  then have "16 * n \<le> length (drop 16 data)" by simp
  from Suc.IH [OF this] have "concat (split_blocks n (drop 16 data)) = take (16 * n) (drop 16 data)" .
  moreover have "take 16 data @ take (16 * n) (drop 16 data) = take (16 * Suc n) data"
    by (metis add.commute mult_Suc_right take_add)
  ultimately show ?case
    by (simp add: split_blocks_Suc)
qed

lemma split_blocks_concat:
  "list_all (\<lambda>p. length p = 16) ps \<Longrightarrow> split_blocks (length ps) (concat ps) = ps"
  by (induction ps) (simp_all add: split_blocks_0 split_blocks_Suc)

lemma xor_block_cancel:
  "length a = length b \<Longrightarrow> xor_block (xor_block a b) b = a"
  unfolding xor_block_def by (rule map2_xor_cancel) simp

lemma length_xor_block: "length (xor_block a b) = min (length a) (length b)"
  by (simp add: xor_block_def)

lemma cbc_encrypt_append:
  "cbc_encrypt w ch (ps @ qs) =
     (case cbc_encrypt w ch ps of (out, ch') \<Rightarrow>
        (case cbc_encrypt w ch' qs of (out', ch'') \<Rightarrow> (out @ out', ch'')))"
  by (induction ps arbitrary: ch) (simp_all add: Let_def split: prod.splits)

lemma cbc_encrypt_lengths:
  "length ch = 16 \<Longrightarrow> list_all (\<lambda>p. length p = 16) ps \<Longrightarrow>
     length (fst (cbc_encrypt w ch ps)) = 16 * length ps \<and> length (snd (cbc_encrypt w ch ps)) = 16"
proof (induction ps arbitrary: ch)
  case Nil
  then show ?case by simp
next
  case (Cons p ps)
  then have "length (aes256_encrypt_block w (xor_block p ch)) = 16"
    by (simp add: length_aes256_encrypt_block length_xor_block)
  with Cons show ?case
    by (simp add: Let_def case_prod_beta)
qed

lemma cbc_decrypt_encrypt:
  "length ch = 16 \<Longrightarrow> list_all (\<lambda>p. length p = 16) ps \<Longrightarrow>
     cbc_decrypt w ch (split_blocks (length ps) (fst (cbc_encrypt w ch ps))) =
       (concat ps, snd (cbc_encrypt w ch ps))"
proof (induction ps arbitrary: ch)
  case Nil
  then show ?case by (simp add: split_blocks_0)
next
  case (Cons p ps)
  define c where "c = aes256_encrypt_block w (xor_block p ch)"
  have lp: "length (xor_block p ch) = 16"
    using Cons.prems by (simp add: length_xor_block)
  then have lc: "length c = 16"
    by (simp add: c_def length_aes256_encrypt_block)
  have dec: "xor_block (aes256_decrypt_block w c) ch = p"
    using Cons.prems lp by (simp add: c_def aes256_decrypt_encrypt_block xor_block_cancel)
  from Cons.prems have "list_all (\<lambda>p. length p = 16) ps" by simp
  from Cons.IH [OF lc this] lc dec show ?case
    by (simp add: split_blocks_Suc Let_def c_def [symmetric] case_prod_beta)
qed

section \<open>What a fresh cipher and a fresh decipher compute\<close>

lemma length_inv_shift_rows: "length st = 16 \<Longrightarrow> length (inv_shift_rows st) = 16"
  by (erule list16) simp

lemma length_inv_mix_columns: "length st = 16 \<Longrightarrow> length (inv_mix_columns st) = 16"
  by (erule list16) simp

lemma length_decrypt_round: "length st = 16 \<Longrightarrow> length (decrypt_round w r st) = 16"
  by (simp add: decrypt_round_def length_add_round_key length_inv_mix_columns
      length_inv_shift_rows length_inv_sub_bytes)

lemma length_fold_decrypt_round:
  "length st = 16 \<Longrightarrow> length (fold (decrypt_round w) rs st) = 16"
  by (induction rs arbitrary: st) (simp_all add: length_decrypt_round)

lemma length_aes256_decrypt_block:
  "length block = 16 \<Longrightarrow> length (aes256_decrypt_block w block) = 16"
  by (simp add: aes256_decrypt_block_def length_add_round_key length_inv_shift_rows
      length_inv_sub_bytes length_fold_decrypt_round)

lemma cbc_decrypt_lengths:
  "length ch = 16 \<Longrightarrow> list_all (\<lambda>p. length p = 16) cs \<Longrightarrow>
     length (fst (cbc_decrypt w ch cs)) = 16 * length cs"
proof (induction cs arbitrary: ch)
  case Nil
  then show ?case by simp
next
  case (Cons c cs)
  then have "length (xor_block (aes256_decrypt_block w c) ch) = 16"
    by (simp add: length_aes256_decrypt_block length_xor_block)
  with Cons show ?case
    by (simp add: Let_def case_prod_beta)
qed

lemma pad_length: "length (pkcs7_pad bs) = 16 * (length bs div 16 + 1)"
proof -
  define q r where "q = length bs div 16" and "r = length bs mod 16"
  have "length bs = 16 * q + r" "r < 16"
    by (simp_all add: q_def r_def)
  then have "length bs + (16 - r) = 16 * (q + 1)"
    by arith
  then show ?thesis
    by (simp add: pkcs7_pad_def q_def r_def)
qed

lemma pad_split:
  "split_blocks (length bs div 16 + 1) (pkcs7_pad bs) =
     split_blocks (length bs div 16) bs @
     [drop (16 * (length bs div 16)) bs @
      replicate (16 - length bs mod 16) (of_nat (16 - length bs mod 16))]"
proof -
  define n where "n = length bs div 16"
  define tail where "tail = drop (16 * n) bs @
      replicate (16 - length bs mod 16) (of_nat (16 - length bs mod 16) :: byte)"
  have le: "16 * n \<le> length bs"
    by (simp add: n_def)
  have "length (drop (16 * n) bs) = length bs mod 16"
    unfolding n_def length_drop by (simp add: minus_mult_div_eq_mod)
  then have lt: "length tail = 16"
    by (simp add: tail_def)
  have "pkcs7_pad bs = take (16 * n) bs @ tail"
    by (simp add: pkcs7_pad_def tail_def)
  moreover have "length (take (16 * n) bs) = 16 * n"
    using le by simp
  ultimately have "split_blocks (n + 1) (pkcs7_pad bs) =
      split_blocks n (take (16 * n) bs) @ split_blocks 1 tail"
    by (simp only: split_blocks_append)
  moreover have "split_blocks 1 tail = [tail]"
    using lt by (simp add: split_blocks_def)
  ultimately show ?thesis
    by (simp add: split_blocks_take n_def tail_def)
qed

lemma pad_split_Suc:
  "split_blocks (Suc (length bs div 16)) (pkcs7_pad bs) =
     split_blocks (length bs div 16) bs @
     [drop (16 * (length bs div 16)) bs @
      replicate (16 - length bs mod 16) (of_nat (16 - length bs mod 16))]"
  using pad_split [of bs] by (simp only: Suc_eq_plus1)

lemma encryption_fresh:
  assumes "cipher_buf c = []"
  shows "encryption c P =
     toString_hex (raw_ciphertext (cipher_key c) (cipher_chain c) (utf8_encode P))"
proof -
  have "length (drop (16 * (length (utf8_encode P) div 16)) (utf8_encode P)) =
      length (utf8_encode P) mod 16"
    unfolding length_drop by (simp add: minus_mult_div_eq_mod)
  then show ?thesis
    using assms
    by (simp add: encryption_def cipher_update_def cipher_final_def raw_ciphertext_def
        pad_split_Suc cbc_encrypt_append Let_def case_prod_beta toString_hex_append
        del: of_nat_diff)
qed

lemma unpad_pad: "pkcs7_unpad (pkcs7_pad bs) = Some bs"
proof -
  define n where "n = length bs div 16"
  define pad where "pad = 16 - length bs mod 16"
  define tl where "tl = drop (16 * n) bs"
  have pad: "0 < pad" "pad \<le> 16"
    by (simp_all add: pad_def)
  have ltl: "length tl = 16 - pad"
    unfolding tl_def n_def pad_def length_drop by (simp add: minus_mult_div_eq_mod)
  have bs: "bs = take (16 * n) bs @ tl"
    by (simp add: tl_def)
  have lt: "length (take (16 * n) bs) = 16 * n"
    by (simp add: n_def)
  have p: "pkcs7_pad bs = take (16 * n) bs @ tl @ replicate pad (of_nat pad)"
    unfolding pkcs7_pad_def pad_def [symmetric] using bs by simp
  have len: "length (pkcs7_pad bs) - 16 = 16 * n"
    by (simp add: pad_length n_def)
  have f: "drop (16 * n) (pkcs7_pad bs) = tl @ replicate pad (of_nat pad)"
    unfolding p using lt by simp
  have tk: "take (16 * n) (pkcs7_pad bs) = take (16 * n) bs"
    unfolding p using lt by simp
  have u: "unat (of_nat pad :: byte) = pad"
    using pad by (simp add: unat_of_nat)
  have "last (tl @ replicate pad x) = x" for x :: byte
    using pad by (cases pad) simp_all
  then have l: "unat (last (tl @ replicate pad (of_nat pad :: byte))) = pad"
    by (simp only: u)
  have d: "drop (16 - pad) (tl @ replicate pad (of_nat pad :: byte)) = replicate pad (of_nat pad)"
    using ltl by simp
  have t: "take (16 - pad) (tl @ replicate pad (of_nat pad :: byte)) = tl"
    using ltl by simp
  show ?thesis
    unfolding pkcs7_unpad_def len f tk Let_def l d t
    using pad bs by (simp add: list_all_iff u)
qed

lemma raw_plaintext_ciphertext:
  assumes "length iv = 16"
  shows "raw_plaintext w iv (raw_ciphertext w iv bs) = pkcs7_pad bs"
    and "length (raw_ciphertext w iv bs) = 16 * (length bs div 16 + 1)"
proof -
  define n where "n = length bs div 16 + 1"
  define ps where "ps = split_blocks n (pkcs7_pad bs)"
  have lp: "length (pkcs7_pad bs) = 16 * n"
    by (simp add: pad_length n_def)
  have all: "list_all (\<lambda>p. length p = 16) ps"
    unfolding ps_def by (rule blocks_length) (simp add: lp)
  have lps: "length ps = n"
    by (simp add: ps_def length_split_blocks)
  have raw: "raw_ciphertext w iv bs = fst (cbc_encrypt w iv ps)"
    by (simp add: raw_ciphertext_def ps_def n_def)
  show len: "length (raw_ciphertext w iv bs) = 16 * (length bs div 16 + 1)"
    unfolding raw using cbc_encrypt_lengths [OF assms all, of w] by (simp add: lps n_def)
  have "concat ps = pkcs7_pad bs"
    unfolding ps_def using concat_split_blocks [of n "pkcs7_pad bs"] by (simp add: lp)
  then show "raw_plaintext w iv (raw_ciphertext w iv bs) = pkcs7_pad bs"
    unfolding raw_plaintext_def len unfolding raw
    using cbc_decrypt_encrypt [OF assms all, of w] by (simp add: lps n_def)
qed

lemma decryption_fresh:
  assumes "decipher_buf d = []" "decipher_final_block d = None"
    and "decipher_decoder d = utf8_decoder_init" and "length (decipher_chain d) = 16"
  shows "decryption d (toString_hex cs) =
     (if cs = [] \<or> length cs mod 16 \<noteq> 0 then Inl WrongFinalBlockLength
      else case pkcs7_unpad (raw_plaintext (decipher_key d) (decipher_chain d) cs) of
             None \<Rightarrow> Inl BadDecrypt
           | Some bs \<Rightarrow> Inr (utf8_end utf8_decoder_init bs))"
proof (cases "cs = []")
  case True
  then show ?thesis
    using assms by (simp add: decryption_def decipher_update_def decipher_final_def toString_hex_def)
next
  case False
  note ne = this
  define n where "n = length cs div 16"
  define plain where "plain = raw_plaintext (decipher_key d) (decipher_chain d) cs"
  show ?thesis
  proof (cases "length cs mod 16 = 0")
    case False
    have "length cs = 16 * n + length cs mod 16"
      by (simp add: n_def)
    with False have "16 * n < length cs"
      by arith
    then have "drop (16 * n) cs \<noteq> []"
      by simp
    then show ?thesis
      using assms ne False
      by (simp add: decryption_def decipher_update_def decipher_final_def from_hex_toString_hex
          length_toString_hex Let_def case_prod_beta n_def)
  next
    case True
    then have len: "length cs = 16 * n"
      by (auto simp: n_def)
    then have rest: "drop (16 * n) cs = []"
      by simp
    have "list_all (\<lambda>p. length p = 16) (split_blocks n cs)"
      by (rule blocks_length) (simp add: len)
    from cbc_decrypt_lengths [OF assms(4) this, of "decipher_key d"]
    have lplain: "length plain = 16 * n"
      by (simp add: plain_def raw_plaintext_def n_def length_split_blocks)
    have plain_eq: "fst (cbc_decrypt (decipher_key d) (decipher_chain d) (split_blocks n cs)) = plain"
      by (simp add: plain_def raw_plaintext_def n_def)
    define e f where "e = take (length plain - 16) plain" and "f = drop (length plain - 16) plain"
    obtain d' str where w: "utf8_write utf8_decoder_init e = (d', str)"
      by (cases "utf8_write utf8_decoder_init e")
    have stream: "str @ utf8_end d' ys = utf8_end utf8_decoder_init (e @ ys)" for ys
      using utf8_end_append [OF w] by simp
    have upd: "decipher_update d (toString_hex cs) =
        Inr (str, d\<lparr>decipher_chain :=
                   snd (cbc_decrypt (decipher_key d) (decipher_chain d) (split_blocks n cs)),
                 decipher_buf := [], decipher_final_block := Some f,
                 decipher_decoder := d'\<rparr>)"
      using assms(1-3) ne rest w
      by (simp add: decipher_update_def from_hex_toString_hex length_toString_hex Let_def
          n_def [symmetric] case_prod_beta plain_eq e_def [symmetric] f_def [symmetric])
    have unpad: "pkcs7_unpad plain =
        (let k = unat (last f) in
         if k = 0 \<or> 16 < k then None
         else if \<not> list_all (\<lambda>x. unat x = k) (drop (16 - k) f) then None
         else Some (e @ take (16 - k) f))"
      by (simp add: pkcs7_unpad_def e_def f_def Let_def)
    show ?thesis
      using ne True
      by (simp add: decryption_def upd decipher_final_def unpad Let_def stream
          plain_def [symmetric])
  qed
qed

section \<open>The operations of the processor\<close>

lemma createCipher_Inr:
  "createCipher k iv = Inr c \<longleftrightarrow>
     length (utf8_encode (iv_value iv)) = 16 \<and> length (utf8_encode (commonKey_value k)) = 32 \<and>
     c = \<lparr>cipher_key = key_expansion (utf8_encode (commonKey_value k)),
          cipher_chain = utf8_encode (iv_value iv), cipher_buf = []\<rparr>"
  by (auto simp: createCipher_def createCipheriv_def)

lemma createDecipher_Inr:
  "createDecipher k iv = Inr d \<longleftrightarrow>
     length (utf8_encode (iv_value iv)) = 16 \<and> length (utf8_encode (commonKey_value k)) = 32 \<and>
     d = \<lparr>decipher_key = key_expansion (utf8_encode (commonKey_value k)),
          decipher_chain = utf8_encode (iv_value iv), decipher_buf = [],
          decipher_final_block = None, decipher_decoder = utf8_decoder_init\<rparr>"
  by (auto simp: createDecipher_def createDecipheriv_def)



lemma encryption_createCipher:
  assumes "createCipher k iv = Inr c"
  shows "encryption c P =
     toString_hex (raw_ciphertext (key_expansion (utf8_encode (commonKey_value k)))
       (utf8_encode (iv_value iv)) (utf8_encode P))"
  using assms encryption_fresh [of c P] by (auto simp: createCipher_Inr)

lemma decryption_createDecipher:
  assumes "createDecipher k iv = Inr d"
  shows "decryption d (toString_hex cs) =
     (if cs = [] \<or> length cs mod 16 \<noteq> 0 then Inl WrongFinalBlockLength
      else case pkcs7_unpad (raw_plaintext (key_expansion (utf8_encode (commonKey_value k)))
                  (utf8_encode (iv_value iv)) cs) of
             None \<Rightarrow> Inl BadDecrypt
           | Some bs \<Rightarrow> Inr (utf8_end utf8_decoder_init bs))"
  using assms decryption_fresh [of d cs] by (auto simp: createDecipher_Inr)

lemma decryption_encryption_bytes:
  assumes "createCipher k iv = Inr c" "createDecipher k iv = Inr d"
  shows "decryption d (encryption c P) = Inr (utf8_end utf8_decoder_init (utf8_encode P))"
proof -
  have iv: "length (utf8_encode (iv_value iv)) = 16"
    using assms(1) by (simp add: createCipher_Inr)
  note raw = raw_plaintext_ciphertext [OF iv]
  have ne: "raw_ciphertext w (utf8_encode (iv_value iv)) bs \<noteq> []" for w bs
    using raw(2) [of w bs] by auto
  show ?thesis
    unfolding encryption_createCipher [OF assms(1)] decryption_createDecipher [OF assms(2)]
    by (simp add: ne raw unpad_pad)
qed

lemma length_encryption:
  assumes "createCipher k iv = Inr c"
  shows "length (encryption c P) = 32 * (length (utf8_encode P) div 16 + 1)"
proof -
  have iv: "length (utf8_encode (iv_value iv)) = 16"
    using assms by (simp add: createCipher_Inr)
  show ?thesis
    unfolding encryption_createCipher [OF assms]
    by (simp add: length_toString_hex raw_plaintext_ciphertext(2) [OF iv])
qed

lemma hex_encryption:
  assumes "createCipher k iv = Inr c"
  shows "set (encryption c P) \<subseteq> set (js ''0123456789abcdef'')"
  unfolding encryption_createCipher [OF assms] by (rule set_toString_hex)

section \<open>The pipeline\<close>

lemma createRandomBytes_if:
  "createRandomBytes sz w =
     (if length (entropy w) < sz then (Inl RandomBytesFailed, w)
      else (Inr (take sz (toString_base64 (take sz (entropy w)))),
            w\<lparr>entropy := drop sz (entropy w)\<rparr>))"
  by (simp add: createRandomBytes_def io_bind_def io_return_def randomBytes_def substring_0)

lemma createCommonKey_case:
  "createCommonKey scrypt password salt =
     (case scrypt (utf8_encode (password_value password)) (utf8_encode (salt_value salt)) of
        None \<Rightarrow> Inl ScryptFailed
      | Some stream \<Rightarrow> Inr (CommonKey (derived_key stream)))"
  by (simp add: createCommonKey_def scryptSync_def keyLength_def substring_0 derived_key_def
      split: option.splits)

lemma draw_utf8: "16 * (i + 1) \<le> length (entropy w) \<Longrightarrow> length (utf8_encode (draw i w)) = 16"
  unfolding draw_def by (rule base64_prefix_utf8) simp

lemma derived_key_utf8: "length (utf8_encode (derived_key stream)) = 32"
  unfolding derived_key_def by (rule base64_prefix_utf8) simp

lemma three_draws:
  assumes "48 \<le> length (entropy w)"
  shows "createRandomBytes 16 w = (Inr (draw 0 w), w\<lparr>entropy := drop 16 (entropy w)\<rparr>)"
    and "createRandomBytes 16 (w\<lparr>entropy := drop 16 (entropy w)\<rparr>) =
      (Inr (draw 1 w), w\<lparr>entropy := drop 32 (entropy w)\<rparr>)"
    and "createRandomBytes 16 (w\<lparr>entropy := drop 32 (entropy w)\<rparr>) =
      (Inr (draw 2 w), w\<lparr>entropy := drop 48 (entropy w)\<rparr>)"
  using assms by (simp_all add: createRandomBytes_if draw_def)

lemma main_success:
  assumes "48 \<le> length (entropy w)"
    and "scrypt (utf8_encode (draw 0 w)) (utf8_encode (draw 1 w)) = Some stream"
  shows "main scrypt target w =
     (Inr [toString_hex (raw_ciphertext (key_expansion (utf8_encode (derived_key stream)))
             (utf8_encode (draw 2 w)) (utf8_encode target)),
           utf8_end utf8_decoder_init (utf8_encode target)],
      w\<lparr>entropy := drop 48 (entropy w),
        console := console w @
          [js ''password.value: '' @ draw 0 w,
           js ''salt.value: '' @ draw 1 w,
           js ''iv.value: '' @ draw 2 w,
           js ''commonKey: '' @ derived_key stream,
           label_encrypted @
             toString_hex (raw_ciphertext (key_expansion (utf8_encode (derived_key stream)))
               (utf8_encode (draw 2 w)) (utf8_encode target)),
           label_decrypted @ utf8_end utf8_decoder_init (utf8_encode target)]\<rparr>)"
proof -
  define key iv where "key = CommonKey (derived_key stream)"
    and "iv = InitializationVector (draw 2 w)"
  have k: "createCommonKey scrypt (Password (draw 0 w)) (Salt (draw 1 w)) = Inr key"
    using assms(2) by (simp add: createCommonKey_case key_def)
  obtain c where c: "createCipher key iv = Inr c"
    using assms(1) by (simp add: createCipher_Inr key_def iv_def draw_utf8 derived_key_utf8)
  obtain d where d: "createDecipher key iv = Inr d"
    using assms(1) by (simp add: createDecipher_Inr key_def iv_def draw_utf8 derived_key_utf8)
  have e: "encryption c target =
      toString_hex (raw_ciphertext (key_expansion (utf8_encode (derived_key stream)))
        (utf8_encode (draw 2 w)) (utf8_encode target))"
    using encryption_createCipher [OF c] by (simp add: key_def iv_def)
  have r: "decryption d (encryption c target) = Inr (utf8_end utf8_decoder_init (utf8_encode target))"
    by (rule decryption_encryption_bytes [OF c d])
  show ?thesis
    unfolding main_def
    by (simp add: io_bind_def io_lift_def io_return_def console_log_def three_draws [OF assms(1)]
        k [unfolded One_nat_def] c d r Let_def key_def [symmetric] iv_def [symmetric])
      (simp add: e key_def iv_def)
qed

lemma main_scrypt_fails:
  assumes "48 \<le> length (entropy w)"
    and "scrypt (utf8_encode (draw 0 w)) (utf8_encode (draw 1 w)) = None"
  shows "main scrypt target w =
     (Inl ScryptFailed,
      w\<lparr>entropy := drop 48 (entropy w),
        console := console w @
          [js ''password.value: '' @ draw 0 w,
           js ''salt.value: '' @ draw 1 w,
           js ''iv.value: '' @ draw 2 w]\<rparr>)"
proof -
  have k: "createCommonKey scrypt (Password (draw 0 w)) (Salt (draw 1 w)) = Inl ScryptFailed"
    using assms(2) by (simp add: createCommonKey_case)
  show ?thesis
    unfolding main_def
    by (simp add: io_bind_def io_lift_def io_return_def console_log_def three_draws [OF assms(1)]
        k [unfolded One_nat_def] Let_def)
qed

lemma main_random_fails:
  assumes "length (entropy w) < 48"
  shows "main scrypt target w =
     (Inl RandomBytesFailed, w\<lparr>entropy := drop (16 * (length (entropy w) div 16)) (entropy w)\<rparr>)"
proof -
  consider "length (entropy w) < 16" | "16 \<le> length (entropy w)" "length (entropy w) < 32"
    | "32 \<le> length (entropy w)" "length (entropy w) < 48"
    using assms by linarith
  then show ?thesis
  proof cases
    case 1
    then show ?thesis
      unfolding main_def by (simp add: io_bind_def createRandomBytes_if)
  next
    case 2
    then have "length (entropy w) div 16 = 1" by simp
    with 2 show ?thesis
      unfolding main_def by (simp add: io_bind_def createRandomBytes_if Let_def)
  next
    case 3
    then have "length (entropy w) div 16 = 2" by simp
    with 3 show ?thesis
      unfolding main_def by (simp add: io_bind_def createRandomBytes_if Let_def)
  qed
qed

section \<open>Decryption succeeds only on ciphertexts; UTF-8 encoding inverts decoding\<close>






























section \<open>Failing steps\<close>








section \<open>The sample key and IV\<close>






lemma createRandomBytes_props:
  assumes "createRandomBytes sz w = (Inr s, w')"
  shows "length s = sz" and "length (utf8_encode s) = sz" and "set s \<subseteq> set base64_alphabet"
proof -
  from assms have le: "sz \<le> length (entropy w)"
    and s: "s = take sz (toString_base64 (take sz (entropy w)))"
    by (simp_all add: createRandomBytes_Inr)
  from le have len: "length (take sz (entropy w)) = sz" by simp
  show "length s = sz" unfolding s by (rule base64_prefix_length [OF len])
  show "length (utf8_encode s) = sz" unfolding s by (rule base64_prefix_utf8 [OF len])
  show "set s \<subseteq> set base64_alphabet" unfolding s by (rule base64_prefix_alphabet [OF len])
qed

lemma createCommonKey_props:
  assumes "createCommonKey scrypt password salt = Inr k"
  shows "length (commonKey_value k) = 32" and "length (utf8_encode (commonKey_value k)) = 32"
    and "set (commonKey_value k) \<subseteq> set base64_alphabet"
proof -
  from assms obtain stream
    where k: "commonKey_value k = take 32 (toString_base64 (map stream [0..<32]))"
    by (auto simp: createCommonKey_Inr)
  have len: "length (map stream [0..<32]) = 32" by simp
  show "length (commonKey_value k) = 32" unfolding k by (rule base64_prefix_length [OF len])
  show "length (utf8_encode (commonKey_value k)) = 32"
    unfolding k by (rule base64_prefix_utf8 [OF len])
  show "set (commonKey_value k) \<subseteq> set base64_alphabet"
    unfolding k by (rule base64_prefix_alphabet [OF len])
qed

lemma sample_createRandomBytes:
  "createRandomBytes 16 sample_world =
     (Inr (js ''AAECAwQFBgcICQoL''), sample_world\<lparr>entropy := map of_nat [16..<48]\<rparr>)"
  by (simp add: createRandomBytes_Inr sample_world_def js_def base64_char_def
      base64_alphabet_def upt_conv_Cons)

lemma sample_createCommonKey:
  "createCommonKey sample_scrypt (Password (js ''AAECAwQFBgcICQoL''))
       (Salt (js ''EBESExQVFhcYGRob'')) =
     Inr (CommonKey (js ''ICEiIyQlJicoKSorLC0uLzAxMjM0NTY3''))"
proof -
  have "list_all (\<lambda>c. unat c < 0x80) (js ''AAECAwQFBgcICQoL'')"
    and "list_all (\<lambda>c. unat c < 0x80) (js ''EBESExQVFhcYGRob'')"
    by (simp_all add: js_def)
  then have "length (utf8_encode (js ''AAECAwQFBgcICQoL'')) = 16"
    and "length (utf8_encode (js ''EBESExQVFhcYGRob'')) = 16"
    by (simp_all add: utf8_encode_ascii) (simp_all add: js_def)
  then show ?thesis
    by (simp add: createCommonKey_Inr sample_scrypt_def)
      (simp add: js_def base64_char_def base64_alphabet_def upt_conv_Cons)
qed

text \<open>
  C3: the strings generated for Password, Salt and InitializationVector
  (\<^verbatim>\<open>createRandomBytes(16)\<close>) have exactly 16 characters and are 16 bytes as key material
  (their UTF-8 encoding, which is what scrypt and the cipher read); the derived CommonKey has
  exactly 32 characters and is 32 bytes.
\<close>

theorem generated_lengths:
  "(createRandomBytes 16 w = (Inr s, w') \<longrightarrow> length s = 16 \<and> length (utf8_encode s) = 16) \<and>
   (createCommonKey scrypt password salt = Inr k \<longrightarrow>
      length (commonKey_value k) = 32 \<and> length (utf8_encode (commonKey_value k)) = 32)"
  using createRandomBytes_props(1,2) [of 16 w s w']
    createCommonKey_props(1,2) [of scrypt password salt k]
  by blast

theorem generated_lengths_witness:
  "createRandomBytes 16 sample_world =
     (Inr (js ''AAECAwQFBgcICQoL''), sample_world\<lparr>entropy := map of_nat [16..<48]\<rparr>) \<and>
   length (js ''AAECAwQFBgcICQoL'') = 16 \<and>
   length (utf8_encode (js ''AAECAwQFBgcICQoL'')) = 16 \<and>
   createCommonKey sample_scrypt (Password (js ''AAECAwQFBgcICQoL''))
       (Salt (js ''EBESExQVFhcYGRob'')) =
     Inr (CommonKey (js ''ICEiIyQlJicoKSorLC0uLzAxMjM0NTY3'')) \<and>
   length (commonKey_value (CommonKey (js ''ICEiIyQlJicoKSorLC0uLzAxMjM0NTY3''))) = 32 \<and>
   length (utf8_encode (commonKey_value (CommonKey (js ''ICEiIyQlJicoKSorLC0uLzAxMjM0NTY3'')))) = 32"
  using sample_createRandomBytes sample_createCommonKey
    generated_lengths [of sample_world "js ''AAECAwQFBgcICQoL''"
      "sample_world\<lparr>entropy := map of_nat [16..<48]\<rparr>" sample_scrypt
      "Password (js ''AAECAwQFBgcICQoL'')" "Salt (js ''EBESExQVFhcYGRob'')"
      "CommonKey (js ''ICEiIyQlJicoKSorLC0uLzAxMjM0NTY3'')"]
  by blast

text \<open>
  C9: every character of a generated Password, Salt or InitializationVector string and of
  the derived CommonKey string is one of the 64 characters of the base64 alphabet (the
  padding character \<^verbatim>\<open>=\<close> never falls inside the prefix that is kept), so that a
  character of key material takes at most \<open>2 ^ 6\<close> values.
\<close>

theorem key_material_base64:
  "(createRandomBytes 16 w = (Inr s, w') \<longrightarrow> set s \<subseteq> set base64_alphabet) \<and>
   (createCommonKey scrypt password salt = Inr k \<longrightarrow>
      set (commonKey_value k) \<subseteq> set base64_alphabet) \<and>
   card (set base64_alphabet) = 2 ^ 6"
proof -
  have "distinct base64_alphabet"
    by (simp add: base64_alphabet_def js_def)
  then have "card (set base64_alphabet) = 2 ^ 6"
    by (simp add: distinct_card length_base64_alphabet)
  then show ?thesis
    using createRandomBytes_props(3) [of 16 w s w']
      createCommonKey_props(3) [of scrypt password salt k]
    by blast
qed

theorem key_material_base64_witness:
  "createRandomBytes 16 sample_world =
     (Inr (js ''AAECAwQFBgcICQoL''), sample_world\<lparr>entropy := map of_nat [16..<48]\<rparr>) \<and>
   set (js ''AAECAwQFBgcICQoL'') \<subseteq> set base64_alphabet \<and>
   createCommonKey sample_scrypt (Password (js ''AAECAwQFBgcICQoL''))
       (Salt (js ''EBESExQVFhcYGRob'')) =
     Inr (CommonKey (js ''ICEiIyQlJicoKSorLC0uLzAxMjM0NTY3'')) \<and>
   set (commonKey_value (CommonKey (js ''ICEiIyQlJicoKSorLC0uLzAxMjM0NTY3''))) \<subseteq>
     set base64_alphabet"
  using sample_createRandomBytes sample_createCommonKey
    key_material_base64 [of sample_world "js ''AAECAwQFBgcICQoL''"
      "sample_world\<lparr>entropy := map of_nat [16..<48]\<rparr>" sample_scrypt
      "Password (js ''AAECAwQFBgcICQoL'')" "Salt (js ''EBESExQVFhcYGRob'')"
      "CommonKey (js ''ICEiIyQlJicoKSorLC0uLzAxMjM0NTY3'')"]
  by blast

section \<open>Round trips\<close>

lemma sample_objects:
  "createCipher sample_key sample_iv = Inr sample_cipher"
  "createDecipher sample_key sample_iv = Inr sample_decipher"
proof -
  have "list_all (\<lambda>c. unat c < 0x80) (commonKey_value sample_key)"
    and "list_all (\<lambda>c. unat c < 0x80) (iv_value sample_iv)"
    by (simp_all add: sample_key_def sample_iv_def js_def)
  then have "length (utf8_encode (commonKey_value sample_key)) = 32"
    and "length (utf8_encode (iv_value sample_iv)) = 16"
    by (simp_all add: utf8_encode_ascii) (simp_all add: sample_key_def sample_iv_def js_def)
  then show "createCipher sample_key sample_iv = Inr sample_cipher"
    and "createDecipher sample_key sample_iv = Inr sample_decipher"
    by (simp_all add: createCipher_Inr createDecipher_Inr sample_cipher_def sample_decipher_def)
qed

lemma isWellFormed_ascii: "list_all (\<lambda>c. unat c < 0x80) s \<Longrightarrow> isWellFormed s"
  by (induction s rule: isWellFormed.induct)
    (simp_all add: is_high_surrogate_def is_low_surrogate_def)

lemma test_ascii: "list_all (\<lambda>c. unat c < 0x80) (js ''test'')"
  by (simp add: js_def)

text \<open>
  C1, as stated, fails: a string with an unpaired surrogate, here the single code unit
  \<open>0xD800\<close>, is encoded as U+FFFD before it is encrypted, and U+FFFD is what decryption
  returns.
\<close>

theorem roundtrip_counterexample:
  "createCipher sample_key sample_iv = Inr sample_cipher \<and>
   createDecipher sample_key sample_iv = Inr sample_decipher \<and>
   decryption sample_decipher (encryption sample_cipher [0xD800]) = Inr [0xFFFD] \<and>
   decryption sample_decipher (encryption sample_cipher [0xD800]) \<noteq> Inr [0xD800]"
proof -
  have "utf8_end utf8_decoder_init (utf8_encode [0xD800]) = [0xFFFD]"
    by (simp add: is_high_surrogate_def utf8_bytes_def utf8_end_def utf8_handler_def
        utf8_lead_def utf8_decoder_init_def utf16_units_def Let_def)
  then show ?thesis
    using decryption_encryption_bytes [OF sample_objects, of "[0xD800]"]
    by (simp add: sample_objects)
qed

text \<open>
  C1, amended: for every well-formed plaintext string \<open>P\<close> (no unpaired surrogate) and
  every key and IV that \<^verbatim>\<open>createCipheriv\<close> accepts, which the keys and IVs of the pipeline
  are, decrypting the encryption of \<open>P\<close> with a fresh decipher for the same key and IV
  returns \<open>P\<close> exactly.
\<close>

theorem roundtrip_well_formed:
  assumes "isWellFormed P" and "createCipher k iv = Inr c" and "createDecipher k iv = Inr d"
  shows "decryption d (encryption c P) = Inr P"
  using decryption_encryption_bytes [OF assms(2,3), of P] assms(1)
  by (simp add: utf8_end_encode)

theorem roundtrip_well_formed_witness:
  "isWellFormed (js ''test'') \<and>
   createCipher sample_key sample_iv = Inr sample_cipher \<and>
   createDecipher sample_key sample_iv = Inr sample_decipher \<and>
   decryption sample_decipher (encryption sample_cipher (js ''test'')) = Inr (js ''test'')"
  using roundtrip_well_formed [OF isWellFormed_ascii [OF test_ascii] sample_objects]
    isWellFormed_ascii [OF test_ascii] sample_objects
  by simp

text \<open>
  C10: for a plaintext whose UTF-8 encoding has \<open>L\<close> bytes, the ciphertext that
  \<^verbatim>\<open>encryption\<close> returns consists of exactly \<open>32 * (L div 16 + 1)\<close> hexadecimal digits:
  the padding adds a whole block when \<open>L\<close> is a multiple of 16.
\<close>

theorem ciphertext_length:
  assumes "createCipher k iv = Inr c"
  shows "length (encryption c P) = 32 * (length (utf8_encode P) div 16 + 1) \<and>
    set (encryption c P) \<subseteq> set (js ''0123456789abcdef'')"
  using length_encryption [OF assms] hex_encryption [OF assms] by simp

theorem ciphertext_length_witness:
  "createCipher sample_key sample_iv = Inr sample_cipher \<and>
   length (utf8_encode (js ''0123456789abcdef'')) = 16 \<and>
   length (encryption sample_cipher (js ''0123456789abcdef'')) = 64 \<and>
   set (encryption sample_cipher (js ''0123456789abcdef'')) \<subseteq> set (js ''0123456789abcdef'')"
proof -
  have "list_all (\<lambda>c. unat c < 0x80) (js ''0123456789abcdef'')"
    by (simp add: js_def)
  then have "length (utf8_encode (js ''0123456789abcdef'')) = 16"
    by (simp add: utf8_encode_ascii) (simp add: js_def)
  then show ?thesis
    using ciphertext_length [OF sample_objects(1), of "js ''0123456789abcdef''"]
    by (simp add: sample_objects)
qed

text \<open>
  C5: with plaintext \<^verbatim>\<open>test\<close>, password \<^verbatim>\<open>0123456789abcdef\<close>, salt
  \<^verbatim>\<open>fedcba9876543210\<close> and an IV of 16 zero bytes, the derivation gives the key that
  the derived bytes determine, the cipher and the decipher are accepted, the ciphertext is one
  string of 32 hexadecimal digits, and decrypting it returns \<^verbatim>\<open>test\<close>.
\<close>

theorem scenario_test:
  assumes "scrypt (utf8_encode (js ''0123456789abcdef'')) (utf8_encode (js ''fedcba9876543210'')) =
    Some stream"
  shows "createCommonKey scrypt (Password (js ''0123456789abcdef''))
        (Salt (js ''fedcba9876543210'')) = Inr (CommonKey (derived_key stream)) \<and>
    (\<exists>c d. createCipher (CommonKey (derived_key stream)) (InitializationVector (replicate 16 0)) =
         Inr c \<and>
       createDecipher (CommonKey (derived_key stream)) (InitializationVector (replicate 16 0)) =
         Inr d \<and>
       length (encryption c (js ''test'')) = 32 \<and>
       set (encryption c (js ''test'')) \<subseteq> set (js ''0123456789abcdef'') \<and>
       decryption d (encryption c (js ''test'')) = Inr (js ''test''))"
proof -
  let ?k = "CommonKey (derived_key stream)" and ?iv = "InitializationVector (replicate 16 0)"
  have "list_all (\<lambda>c. unat c < 0x80) (replicate 16 (0 :: 16 word))"
    by (simp add: list_all_iff)
  then have iv: "length (utf8_encode (iv_value ?iv)) = 16"
    by (simp add: utf8_encode_ascii)
  obtain c where c: "createCipher ?k ?iv = Inr c"
    using iv by (simp add: createCipher_Inr derived_key_utf8)
  obtain d where d: "createDecipher ?k ?iv = Inr d"
    using iv by (simp add: createDecipher_Inr derived_key_utf8)
  have "length (utf8_encode (js ''test'')) = 4"
    using test_ascii by (simp add: utf8_encode_ascii) (simp add: js_def)
  then have "length (encryption c (js ''test'')) = 32"
    using length_encryption [OF c, of "js ''test''"] by simp
  moreover have "decryption d (encryption c (js ''test'')) = Inr (js ''test'')"
    using decryption_encryption_bytes [OF c d, of "js ''test''"]
    by (simp add: utf8_end_encode isWellFormed_ascii [OF test_ascii])
  moreover have "createCommonKey scrypt (Password (js ''0123456789abcdef''))
        (Salt (js ''fedcba9876543210'')) = Inr ?k"
    using assms by (simp add: createCommonKey_case)
  ultimately show ?thesis
    using c d hex_encryption [OF c, of "js ''test''"] by blast
qed

theorem scenario_test_witness:
  "sample_scrypt (utf8_encode (js ''0123456789abcdef'')) (utf8_encode (js ''fedcba9876543210'')) =
     Some (\<lambda>i. of_nat (32 + i)) \<and>
   createCommonKey sample_scrypt (Password (js ''0123456789abcdef''))
       (Salt (js ''fedcba9876543210'')) = Inr (CommonKey (derived_key (\<lambda>i. of_nat (32 + i)))) \<and>
   (\<exists>c d. createCipher (CommonKey (derived_key (\<lambda>i. of_nat (32 + i))))
          (InitializationVector (replicate 16 0)) = Inr c \<and>
      createDecipher (CommonKey (derived_key (\<lambda>i. of_nat (32 + i))))
          (InitializationVector (replicate 16 0)) = Inr d \<and>
      length (encryption c (js ''test'')) = 32 \<and>
      set (encryption c (js ''test'')) \<subseteq> set (js ''0123456789abcdef'') \<and>
      decryption d (encryption c (js ''test'')) = Inr (js ''test''))"
proof -
  have "list_all (\<lambda>c. unat c < 0x80) (js ''0123456789abcdef'')"
    and "list_all (\<lambda>c. unat c < 0x80) (js ''fedcba9876543210'')"
    by (simp_all add: js_def)
  then have "length (utf8_encode (js ''0123456789abcdef'')) = 16"
    and "length (utf8_encode (js ''fedcba9876543210'')) = 16"
    by (simp_all add: utf8_encode_ascii) (simp_all add: js_def)
  then have s: "sample_scrypt (utf8_encode (js ''0123456789abcdef''))
      (utf8_encode (js ''fedcba9876543210'')) = Some (\<lambda>i. of_nat (32 + i))"
    by (simp add: sample_scrypt_def)
  from scenario_test [of sample_scrypt "\<lambda>i. of_nat (32 + i)", OF s] s show ?thesis
    by blast
qed



section \<open>Results, errors and effects of the pipeline\<close>

lemma main_Inr:
  assumes "main scrypt target w = (Inr r, w')"
  shows "48 \<le> length (entropy w) \<and>
    (\<exists>stream. scrypt (utf8_encode (draw 0 w)) (utf8_encode (draw 1 w)) = Some stream \<and>
       r = [toString_hex (raw_ciphertext (key_expansion (utf8_encode (derived_key stream)))
              (utf8_encode (draw 2 w)) (utf8_encode target)),
            utf8_end utf8_decoder_init (utf8_encode target)] \<and>
       w' = w\<lparr>entropy := drop 48 (entropy w),
              console := console w @
                [js ''password.value: '' @ draw 0 w,
                 js ''salt.value: '' @ draw 1 w,
                 js ''iv.value: '' @ draw 2 w,
                 js ''commonKey: '' @ derived_key stream,
                 label_encrypted @ r ! 0,
                 label_decrypted @ r ! 1]\<rparr>)"
proof (cases "length (entropy w) < 48")
  case True
  from main_random_fails [OF this, of scrypt target] assms show ?thesis by simp
next
  case False
  then have le: "48 \<le> length (entropy w)" by simp
  show ?thesis
  proof (cases "scrypt (utf8_encode (draw 0 w)) (utf8_encode (draw 1 w))")
    case None
    from main_scrypt_fails [where scrypt = scrypt and target = target, OF le this] assms show ?thesis by simp
  next
    case (Some stream)
    from main_success [where scrypt = scrypt and target = target, OF le this] assms le Some show ?thesis by auto
  qed
qed



lemma sample_draws:
  "draw 0 sample_world = js ''AAECAwQFBgcICQoL''"
  "draw 1 sample_world = js ''EBESExQVFhcYGRob''"
  "draw 2 sample_world = js ''ICEiIyQlJicoKSor''"
  by (simp_all add: draw_def sample_world_def js_def base64_char_def base64_alphabet_def
      upt_conv_Cons)

lemma sample_stream:
  "sample_scrypt (utf8_encode (draw 0 sample_world)) (utf8_encode (draw 1 sample_world)) =
     Some (\<lambda>i. of_nat (32 + i))"
proof -
  have "length (utf8_encode (draw 0 sample_world)) = 16"
    and "length (utf8_encode (draw 1 sample_world)) = 16"
    by (rule draw_utf8, simp add: sample_world_def)+
  then show ?thesis
    by (simp add: sample_scrypt_def)
qed

lemma sample_derived_key:
  "derived_key (\<lambda>i. of_nat (32 + i)) = js ''ICEiIyQlJicoKSorLC0uLzAxMjM0NTY3''"
  by (simp add: derived_key_def js_def base64_char_def base64_alphabet_def upt_conv_Cons)

lemma sample_entropy: "48 \<le> length (entropy sample_world)"
  by (simp add: sample_world_def)







text \<open>
  C8, as stated, fails: a run of the pipeline writes to the console, and the first four
  lines it writes are the generated password, salt and IV and the derived key.
\<close>

theorem no_side_effect_counterexample:
  "take 4 (console (snd (main sample_scrypt (js ''test'') sample_world))) =
     [js ''password.value: AAECAwQFBgcICQoL'',
      js ''salt.value: EBESExQVFhcYGRob'',
      js ''iv.value: ICEiIyQlJicoKSor'',
      js ''commonKey: ICEiIyQlJicoKSorLC0uLzAxMjM0NTY3''] \<and>
   console sample_world = []"
  using main_success [where scrypt = sample_scrypt and target = "js ''test''",
      OF sample_entropy sample_stream]
  unfolding sample_draws sample_derived_key
  by (simp add: sample_world_def js_def)

text \<open>
  C8, amended: a run of the pipeline that returns has exactly these effects: it takes 48
  bytes from the random generator and appends six lines to the console, in this order: the
  generated password, salt and IV, the derived key, the ciphertext and the recovered
  plaintext. Nothing else changes.
\<close>

theorem main_effects:
  assumes "main scrypt target w = (Inr r, w')"
  shows "\<exists>stream. scrypt (utf8_encode (draw 0 w)) (utf8_encode (draw 1 w)) = Some stream \<and>
    w' = w\<lparr>entropy := drop 48 (entropy w),
          console := console w @
            [js ''password.value: '' @ draw 0 w,
             js ''salt.value: '' @ draw 1 w,
             js ''iv.value: '' @ draw 2 w,
             js ''commonKey: '' @ derived_key stream,
             label_encrypted @ r ! 0,
             label_decrypted @ r ! 1]\<rparr>"
  using main_Inr [OF assms] by blast

theorem main_effects_witness:
  "\<exists>r w'. main sample_scrypt (js ''test'') sample_world = (Inr r, w') \<and>
     (\<exists>stream. sample_scrypt (utf8_encode (draw 0 sample_world))
          (utf8_encode (draw 1 sample_world)) = Some stream \<and>
        w' = sample_world\<lparr>entropy := drop 48 (entropy sample_world),
              console := console sample_world @
                [js ''password.value: '' @ draw 0 sample_world,
                 js ''salt.value: '' @ draw 1 sample_world,
                 js ''iv.value: '' @ draw 2 sample_world,
                 js ''commonKey: '' @ derived_key stream,
                 label_encrypted @ r ! 0,
                 label_decrypted @ r ! 1]\<rparr>)"
proof -
  obtain r w' where m: "main sample_scrypt (js ''test'') sample_world = (Inr r, w')"
    using main_success [where scrypt = sample_scrypt and target = "js ''test''",
        OF sample_entropy sample_stream]
    by blast
  from main_effects [OF m] m show ?thesis
    by blast
qed

section \<open>Tampering with the ciphertext\<close>











end
